theory Spec2Isabelle
  imports Complex_Main
begin

section \<open>JavaScript strings\<close>

text \<open>
  A JavaScript string is a sequence of UTF-16 code units; \<open>length\<close>, \<open>trim\<close>,
  \<open>split\<close> and the regular expression engine (without the \<open>u\<close> flag) all work on code
  units. A code unit is modelled as a natural number, a string as a list of them.
  \<open>str\<close> writes an ASCII literal.
\<close>

type_synonym jschar = nat
type_synonym jsstring = "nat list"

definition str :: "string \<Rightarrow> jsstring" where
  "str s = map of_char s"

text \<open>
  The character classes of ECMAScript: \<^verbatim>\<open>\s\<close> is WhiteSpace together with
  LineTerminator (and \<open>String.prototype.trim\<close> strips exactly that class), \<open>.\<close> is
  every code unit except the four line terminators, \<^verbatim>\<open>\d\<close> is \<open>0\<close> to \<open>9\<close>, and
  \<open>[+-]\<close> is the two sign characters.
\<close>

definition is_line_terminator :: "jschar \<Rightarrow> bool" where
  "is_line_terminator c \<longleftrightarrow> c = 10 \<or> c = 13 \<or> c = 8232 \<or> c = 8233"

definition is_ws :: "jschar \<Rightarrow> bool" where
  "is_ws c \<longleftrightarrow>
     c = 9 \<or> c = 11 \<or> c = 12 \<or> c = 32 \<or> c = 160 \<or> c = 5760 \<or>
     (8192 \<le> c \<and> c \<le> 8202) \<or> c = 8239 \<or> c = 8287 \<or> c = 12288 \<or> c = 65279 \<or>
     is_line_terminator c"

definition is_dot :: "jschar \<Rightarrow> bool" where
  "is_dot c \<longleftrightarrow> \<not> is_line_terminator c"

definition is_digit :: "jschar \<Rightarrow> bool" where
  "is_digit c \<longleftrightarrow> 48 \<le> c \<and> c \<le> 57"

definition is_sign :: "jschar \<Rightarrow> bool" where
  "is_sign c \<longleftrightarrow> c = 43 \<or> c = 45"

definition trim :: "jsstring \<Rightarrow> jsstring" where
  "trim s = rev (dropWhile is_ws (rev (dropWhile is_ws s)))"

text \<open>
  \<open>s.split(sep)\<close> for a one-character separator: the pieces between the separators,
  so that the empty string splits into one empty piece. \<open>join\<close> is
  \<open>Array.prototype.join\<close>.
\<close>

fun split_on :: "jschar \<Rightarrow> jsstring \<Rightarrow> jsstring list" where
  "split_on sep [] = [[]]"
| "split_on sep (c # cs) =
     (if c = sep then [] # split_on sep cs
      else (case split_on sep cs of
              [] \<Rightarrow> [[c]]
            | p # ps \<Rightarrow> (c # p) # ps))"

fun join :: "jsstring \<Rightarrow> jsstring list \<Rightarrow> jsstring" where
  "join sep [] = []"
| "join sep [p] = p"
| "join sep (p # q # ps) = p @ sep @ join sep (q # ps)"

section \<open>Numbers\<close>

text \<open>
  A JavaScript number is an IEEE 754 double: a finite value, one of the two
  infinities, or NaN. A finite double is a rational number of the form
  \<open>m * 2^e\<close> with \<open>\<bar>m\<bar> < 2^53\<close> and \<open>-1074 \<le> e \<le> 971\<close>, and is modelled by that
  rational. The two zeros are one value here: the program applies \<open>>= 0\<close>,
  \<open>Math.abs\<close>, \<open>+\<close>, \<open>*\<close> and the conversion to a string to its numbers, and none of
  them tells \<open>-0\<close> from \<open>0\<close> in what the program shows.
\<close>

datatype number = Fin rat | PosInf | NegInf | NaN

text \<open>
  Every arithmetic result is rounded to the nearest double, ties to the even
  significand (\<open>round_double\<close>). For a positive rational \<open>a\<close>, \<open>floor_log2 a\<close> is
  the exponent of its leading bit; the spacing of the doubles around \<open>a\<close> is
  \<open>2^(floor_log2 a - 52)\<close>, and \<open>2^(-1074)\<close> for the subnormal ones; a result of
  magnitude \<open>2^1024\<close> after rounding is an infinity.
\<close>

fun bit_length :: "nat \<Rightarrow> nat" where
  "bit_length n = (if n = 0 then 0 else Suc (bit_length (n div 2)))"

declare bit_length.simps [simp del]

definition floor_log2 :: "rat \<Rightarrow> int" where
  "floor_log2 a =
     (if 1 \<le> a then int (bit_length (nat \<lfloor>a\<rfloor>)) - 1
      else - int (bit_length (nat \<lceil>1 / a\<rceil> - 1)))"

definition pow2 :: "int \<Rightarrow> rat" where
  "pow2 e = (if 0 \<le> e then 2 ^ nat e else 1 / 2 ^ nat (- e))"

definition round_half_even :: "rat \<Rightarrow> int" where
  "round_half_even m =
     (let f = \<lfloor>m\<rfloor>; d = m - of_int f in
      if d < 1 / 2 then f else if 1 / 2 < d then f + 1 else if even f then f else f + 1)"

definition round_double :: "rat \<Rightarrow> number" where
  "round_double q =
     (if q = 0 then Fin 0
      else
        let a = \<bar>q\<bar>;
            ulp = pow2 (max (floor_log2 a) (- 1022) - 52);
            v = of_int (round_half_even (a / ulp)) * ulp
        in if 2 ^ 1024 \<le> v then (if 0 < q then PosInf else NegInf)
           else Fin (if 0 < q then v else - v))"

text \<open>
  Addition and multiplication, \<open>>= 0\<close>, \<open>Math.abs\<close> and \<open>isNaN\<close>, with the IEEE 754
  rules for the special values.
\<close>

fun num_add :: "number \<Rightarrow> number \<Rightarrow> number" where
  "num_add (Fin a) (Fin b) = round_double (a + b)"
| "num_add NaN _ = NaN"
| "num_add _ NaN = NaN"
| "num_add PosInf NegInf = NaN"
| "num_add NegInf PosInf = NaN"
| "num_add PosInf _ = PosInf"
| "num_add _ PosInf = PosInf"
| "num_add NegInf _ = NegInf"
| "num_add _ NegInf = NegInf"

fun num_mul :: "number \<Rightarrow> number \<Rightarrow> number" where
  "num_mul (Fin a) (Fin b) = round_double (a * b)"
| "num_mul NaN _ = NaN"
| "num_mul _ NaN = NaN"
| "num_mul PosInf (Fin b) = (if b = 0 then NaN else if 0 < b then PosInf else NegInf)"
| "num_mul NegInf (Fin b) = (if b = 0 then NaN else if 0 < b then NegInf else PosInf)"
| "num_mul (Fin a) PosInf = (if a = 0 then NaN else if 0 < a then PosInf else NegInf)"
| "num_mul (Fin a) NegInf = (if a = 0 then NaN else if 0 < a then NegInf else PosInf)"
| "num_mul PosInf PosInf = PosInf"
| "num_mul PosInf NegInf = NegInf"
| "num_mul NegInf PosInf = NegInf"
| "num_mul NegInf NegInf = PosInf"

fun num_ge0 :: "number \<Rightarrow> bool" where
  "num_ge0 (Fin a) = (a \<ge> 0)"
| "num_ge0 PosInf = True"
| "num_ge0 NegInf = False"
| "num_ge0 NaN = False"

fun num_abs :: "number \<Rightarrow> number" where
  "num_abs (Fin a) = Fin \<bar>a\<bar>"
| "num_abs PosInf = PosInf"
| "num_abs NegInf = PosInf"
| "num_abs NaN = NaN"

fun isNaN :: "number \<Rightarrow> bool" where
  "isNaN NaN = True"
| "isNaN _ = False"

text \<open>
  \<open>parseInt\<close> (no radix argument) skips leading white space, reads an optional sign,
  switches to radix 16 after a \<open>0x\<close> prefix, and converts the longest run of digits
  that follows: the result is the double nearest to the integer the digits denote,
  with the sign, and NaN without a digit. (ECMAScript lets an implementation replace
  the decimal digits after the twentieth by zeros; the engines this program runs on
  round the exact value.)
\<close>

definition digit_val :: "jschar \<Rightarrow> int" where
  "digit_val c = int c - 48"

definition decimal :: "jsstring \<Rightarrow> int" where
  "decimal ds = foldl (\<lambda>a c. 10 * a + digit_val c) 0 ds"

definition is_hex_digit :: "jschar \<Rightarrow> bool" where
  "is_hex_digit c \<longleftrightarrow> is_digit c \<or> (65 \<le> c \<and> c \<le> 70) \<or> (97 \<le> c \<and> c \<le> 102)"

definition hex_val :: "jschar \<Rightarrow> int" where
  "hex_val c = (if is_digit c then int c - 48 else if c \<le> 70 then int c - 55 else int c - 87)"

definition hexadecimal :: "jsstring \<Rightarrow> int" where
  "hexadecimal ds = foldl (\<lambda>a c. 16 * a + hex_val c) 0 ds"

definition parse_magnitude :: "jsstring \<Rightarrow> int option" where
  "parse_magnitude s =
     (case s of
        a # b # cs \<Rightarrow>
          if a = 48 \<and> (b = 120 \<or> b = 88) then
            (if takeWhile is_hex_digit cs = [] then None
             else Some (hexadecimal (takeWhile is_hex_digit cs)))
          else if takeWhile is_digit s = [] then None
          else Some (decimal (takeWhile is_digit s))
      | _ \<Rightarrow>
          if takeWhile is_digit s = [] then None
          else Some (decimal (takeWhile is_digit s)))"

definition parseInt :: "jsstring \<Rightarrow> number" where
  "parseInt s0 =
     (let s = dropWhile is_ws s0;
          mathInt = (case s of
                       [] \<Rightarrow> None
                     | c # cs \<Rightarrow>
                         if c = 45 then map_option uminus (parse_magnitude cs)
                         else if c = 43 then parse_magnitude cs
                         else parse_magnitude s)
      in case mathInt of None \<Rightarrow> NaN | Some i \<Rightarrow> round_double (of_int i))"

text \<open>
  The conversion of a number to a string (\<open>String(n)\<close>, a template literal). For a
  finite \<open>x > 0\<close> ECMAScript takes the integers \<open>n\<close>, \<open>k\<close> and \<open>s\<close> with
  \<open>10^(k-1) \<le> s < 10^k\<close> such that \<open>s * 10^(n-k)\<close> rounds to \<open>x\<close> and \<open>k\<close> is as small
  as possible (of several such \<open>s\<close> the one nearest to \<open>x\<close>), and writes the \<open>k\<close>
  digits of \<open>s\<close> as an integer followed by zeros when \<open>k \<le> n \<le> 21\<close>, with a decimal
  point when \<open>0 < n \<le> 21\<close>, after \<open>0.\<close> and zeros when \<open>-6 < n \<le> 0\<close>, and with an
  exponent otherwise. \<open>shortest_digits\<close> searches \<open>k\<close> upwards; seventeen digits
  always identify a double. \<open>show_nat\<close> writes the decimal digits of a natural
  number, \<open>show_int\<close> those of an integer with its sign.
\<close>

fun show_nat :: "nat \<Rightarrow> jsstring" where
  "show_nat n = (if n < 10 then [48 + n] else show_nat (n div 10) @ [48 + n mod 10])"

definition show_int :: "int \<Rightarrow> jsstring" where
  "show_int i = (if i < 0 then 45 # show_nat (nat (- i)) else show_nat (nat i))"

fun decimal_length :: "nat \<Rightarrow> nat" where
  "decimal_length n = (if n = 0 then 0 else Suc (decimal_length (n div 10)))"

declare decimal_length.simps [simp del]

definition floor_log10 :: "rat \<Rightarrow> int" where
  "floor_log10 a =
     (if 1 \<le> a then int (decimal_length (nat \<lfloor>a\<rfloor>)) - 1
      else - int (decimal_length (nat \<lceil>1 / a\<rceil> - 1)))"

definition pow10 :: "int \<Rightarrow> rat" where
  "pow10 e = (if 0 \<le> e then 10 ^ nat e else 1 / 10 ^ nat (- e))"

definition digits_candidate :: "rat \<Rightarrow> int \<Rightarrow> nat \<Rightarrow> int option" where
  "digits_candidate x n k =
     (let scale = pow10 (n - int k);
          lo = \<lfloor>x / scale\<rfloor>;
          hi = lo + 1;
          lo_ok = (round_double (of_int lo * scale) = Fin x);
          hi_ok = (round_double (of_int hi * scale) = Fin x);
          dlo = x - of_int lo * scale;
          dhi = of_int hi * scale - x
      in if lo_ok \<and> hi_ok then
           Some (if dlo < dhi then lo else if dhi < dlo then hi else if even lo then lo else hi)
         else if lo_ok then Some lo
         else if hi_ok then Some hi
         else None)"

fun shortest_digits :: "rat \<Rightarrow> int \<Rightarrow> nat \<Rightarrow> nat \<Rightarrow> int \<times> nat" where
  "shortest_digits x n 0 k = (\<lfloor>x / pow10 (n - int k)\<rfloor>, k)"
| "shortest_digits x n (Suc fuel) k =
     (case digits_candidate x n k of
        Some s \<Rightarrow> (s, k)
      | None \<Rightarrow> shortest_digits x n fuel (Suc k))"

definition strip_zeros :: "jsstring \<Rightarrow> jsstring" where
  "strip_zeros ds = rev (dropWhile (\<lambda>c. c = 48) (rev ds))"

definition positive_toString :: "rat \<Rightarrow> jsstring" where
  "positive_toString x =
     (let n0 = floor_log10 x + 1;
          (s, k0) = shortest_digits x n0 17 1;
          all_digits = show_nat (nat s);
          n = n0 + int (length all_digits) - int k0;
          digits = strip_zeros all_digits;
          k = int (length digits)
      in if k \<le> n \<and> n \<le> 21 then digits @ replicate (nat (n - k)) 48
         else if 0 < n \<and> n \<le> 21 then take (nat n) digits @ str ''.'' @ drop (nat n) digits
         else if - 6 < n \<and> n \<le> 0 then str ''0.'' @ replicate (nat (- n)) 48 @ digits
         else
           let e = n - 1;
               exponent = (if e < 0 then str ''-'' else str ''+'') @ show_nat (nat \<bar>e\<bar>)
           in if k = 1 then digits @ str ''e'' @ exponent
              else take 1 digits @ str ''.'' @ drop 1 digits @ str ''e'' @ exponent)"

definition Number_toString :: "number \<Rightarrow> jsstring" where
  "Number_toString x =
     (case x of
        NaN \<Rightarrow> str ''NaN''
      | PosInf \<Rightarrow> str ''Infinity''
      | NegInf \<Rightarrow> str ''-Infinity''
      | Fin q \<Rightarrow>
          if q = 0 then str ''0''
          else (if q < 0 then str ''-'' else []) @ positive_toString \<bar>q\<bar>)"

section \<open>The backtracking matcher\<close>

text \<open>
  ECMAScript defines pattern matching by matchers that take a continuation: a
  quantified atom tries its alternatives in priority order and hands the rest of the
  input to the continuation, and the first alternative on which the continuation
  succeeds is the match. The patterns of this program quantify single character
  classes only, so one combinator for each quantifier they use is enough: \<open>*\<close> and
  \<open>+\<close>, greedy and lazy, the greedy \<open>?\<close>, and a single character of a class. The
  continuation receives the text the atom consumed (what a capture group around it
  records) and the remaining input.
\<close>

fun greedy_star ::
  "(jschar \<Rightarrow> bool) \<Rightarrow> (jsstring \<Rightarrow> jsstring \<Rightarrow> 'r option) \<Rightarrow> jsstring \<Rightarrow> jsstring \<Rightarrow> 'r option"
where
  "greedy_star P k acc [] = k acc []"
| "greedy_star P k acc (c # cs) =
     (if P c then
        (case greedy_star P k (acc @ [c]) cs of
           Some r \<Rightarrow> Some r
         | None \<Rightarrow> k acc (c # cs))
      else k acc (c # cs))"

fun lazy_star ::
  "(jschar \<Rightarrow> bool) \<Rightarrow> (jsstring \<Rightarrow> jsstring \<Rightarrow> 'r option) \<Rightarrow> jsstring \<Rightarrow> jsstring \<Rightarrow> 'r option"
where
  "lazy_star P k acc [] = k acc []"
| "lazy_star P k acc (c # cs) =
     (case k acc (c # cs) of
        Some r \<Rightarrow> Some r
      | None \<Rightarrow> if P c then lazy_star P k (acc @ [c]) cs else None)"

definition greedy_plus ::
  "(jschar \<Rightarrow> bool) \<Rightarrow> (jsstring \<Rightarrow> jsstring \<Rightarrow> 'r option) \<Rightarrow> jsstring \<Rightarrow> 'r option"
where
  "greedy_plus P k s =
     (case s of [] \<Rightarrow> None | c # cs \<Rightarrow> if P c then greedy_star P k [c] cs else None)"

definition lazy_plus ::
  "(jschar \<Rightarrow> bool) \<Rightarrow> (jsstring \<Rightarrow> jsstring \<Rightarrow> 'r option) \<Rightarrow> jsstring \<Rightarrow> 'r option"
where
  "lazy_plus P k s =
     (case s of [] \<Rightarrow> None | c # cs \<Rightarrow> if P c then lazy_star P k [c] cs else None)"

definition greedy_opt ::
  "(jschar \<Rightarrow> bool) \<Rightarrow> (jsstring \<Rightarrow> jsstring \<Rightarrow> 'r option) \<Rightarrow> jsstring \<Rightarrow> 'r option"
where
  "greedy_opt P k s =
     (case s of
        [] \<Rightarrow> k [] []
      | c # cs \<Rightarrow>
          if P c then (case k [c] cs of Some r \<Rightarrow> Some r | None \<Rightarrow> k [] s)
          else k [] s)"

definition one_of ::
  "(jschar \<Rightarrow> bool) \<Rightarrow> (jsstring \<Rightarrow> jsstring \<Rightarrow> 'r option) \<Rightarrow> jsstring \<Rightarrow> 'r option"
where
  "one_of P k s = (case s of [] \<Rightarrow> None | c # cs \<Rightarrow> if P c then k [c] cs else None)"

text \<open>
  A pattern without \<open>^\<close> is tried at every start index in turn, from the left.
\<close>

fun search :: "(jsstring \<Rightarrow> 'r option) \<Rightarrow> jsstring \<Rightarrow> 'r option" where
  "search m [] = m []"
| "search m (c # cs) = (case m (c # cs) of Some r \<Rightarrow> Some r | None \<Rightarrow> search m cs)"

section \<open>The message parser of the persisted bot (\<open>parseMessage\<close>)\<close>

datatype sign = Positive | Negative

record ParsedTransaction =
  label :: jsstring
  sign :: sign
  amount :: number

text \<open>
  The match array of
  \<^verbatim>\<open>/^\s*(?:([+-]?)(\d+)\s+(.+)|(.+?)\s+([+-])(\d+))\s*$/\<close>: six capture groups,
  each a string or \<open>undefined\<close>.
\<close>

record captures =
  g1 :: "jsstring option"
  g2 :: "jsstring option"
  g3 :: "jsstring option"
  g4 :: "jsstring option"
  g5 :: "jsstring option"
  g6 :: "jsstring option"

text \<open>The tail \<^verbatim>\<open>\s*$\<close> that follows both alternatives.\<close>

definition trailing :: "captures \<Rightarrow> jsstring \<Rightarrow> captures option" where
  "trailing m s = greedy_star is_ws (\<lambda>_ r. if r = [] then Some m else None) [] s"

text \<open>First alternative, \<^verbatim>\<open>([+-]?)(\d+)\s+(.+)\<close>.\<close>

definition amount_first :: "jsstring \<Rightarrow> captures option" where
  "amount_first s =
     greedy_opt is_sign (\<lambda>sg r1.
       greedy_plus is_digit (\<lambda>ds r2.
         greedy_plus is_ws (\<lambda>_ r3.
           greedy_plus is_dot (\<lambda>lbl r4.
             trailing \<lparr>g1 = Some sg, g2 = Some ds, g3 = Some lbl,
                       g4 = None, g5 = None, g6 = None\<rparr> r4) r3) r2) r1) s"

text \<open>Second alternative, \<^verbatim>\<open>(.+?)\s+([+-])(\d+)\<close>.\<close>

definition label_first :: "jsstring \<Rightarrow> captures option" where
  "label_first s =
     lazy_plus is_dot (\<lambda>lbl r1.
       greedy_plus is_ws (\<lambda>_ r2.
         one_of is_sign (\<lambda>sg r3.
           greedy_plus is_digit (\<lambda>ds r4.
             trailing \<lparr>g1 = None, g2 = None, g3 = None,
                       g4 = Some lbl, g5 = Some sg, g6 = Some ds\<rparr> r4) r3) r2) r1) s"

definition pattern_match :: "jsstring \<Rightarrow> captures option" where
  "pattern_match s =
     greedy_star is_ws (\<lambda>_ r.
       case amount_first r of Some m \<Rightarrow> Some m | None \<Rightarrow> label_first r) [] s"

text \<open>
  Calling \<open>.trim()\<close> on an \<open>undefined\<close> capture raises a TypeError, which the model
  keeps as an error value; \<open>parseInt\<close> of an \<open>undefined\<close> capture (of the string
  \<open>undefined\<close>, that is) is NaN.
\<close>

datatype parse_error = TypeError

definition parseInt_capture :: "jsstring option \<Rightarrow> number" where
  "parseInt_capture c = (case c of None \<Rightarrow> NaN | Some ds \<Rightarrow> parseInt ds)"

definition parseMessage :: "jsstring \<Rightarrow> parse_error + ParsedTransaction option" where
  "parseMessage text0 =
     (let text = trim text0 in
      case pattern_match text of
        None \<Rightarrow> Inr None
      | Some m \<Rightarrow>
          if g1 m \<noteq> None \<or> g2 m \<noteq> None then
            (let signChar = (case g1 m of
                               None \<Rightarrow> str ''+''
                             | Some x \<Rightarrow> if x = [] then str ''+'' else x)
             in case g3 m of
                  None \<Rightarrow> Inl TypeError
                | Some l \<Rightarrow>
                    Inr (Some \<lparr>label = trim l,
                               sign = (if signChar = str ''-'' then Negative else Positive),
                               amount = parseInt_capture (g2 m)\<rparr>))
          else
            (case g4 m of
               None \<Rightarrow> Inl TypeError
             | Some l \<Rightarrow>
                 Inr (Some \<lparr>label = trim l,
                            sign = (if g5 m = Some (str ''+'') then Positive else Negative),
                            amount = parseInt_capture (g6 m)\<rparr>)))"

section \<open>The persisted bot: rows and the report text\<close>

record Account =
  a_id :: jsstring
  a_name :: jsstring

record Transaction =
  t_id :: jsstring
  t_label :: jsstring
  t_amount :: number
  t_account :: jsstring

record CreateTransactionParams =
  p_label :: jsstring
  p_amount :: number
  p_accountId :: jsstring

text \<open>
  The string literals of \<open>parseTransactions\<close>, as the code units of the source file:
  the two entry markers and the two total markers.
\<close>

definition emoji_gain :: jsstring where "emoji_gain = [240, 376, 8217, 176]"
definition emoji_loss :: jsstring where "emoji_loss = [240, 376, 8217, 184]"
definition emoji_total_up :: jsstring where "emoji_total_up = [240, 376, 8220, 710]"
definition emoji_total_down :: jsstring where "emoji_total_down = [240, 376, 8220, 8240]"

text \<open>
  \<open>Number.prototype.toLocaleString()\<close> formats with the locale of the host, which the
  source does not fix: it is the parameter \<open>toLocaleString\<close> of the formatter.
  \<open>entry_line\<close> is the callback of the \<open>map\<close>.
\<close>

definition entry_line :: "(number \<Rightarrow> jsstring) \<Rightarrow> Transaction \<Rightarrow> jsstring" where
  "entry_line toLocaleString transaction =
     (let emoji = (if num_ge0 (t_amount transaction) then emoji_gain else emoji_loss);
          sign = (if num_ge0 (t_amount transaction) then str ''+'' else str ''-'');
          formattedAmount = toLocaleString (num_abs (t_amount transaction))
      in emoji @ str '' '' @ sign @ formattedAmount @ str ''  \"'' @ t_label transaction @ str ''\"'')"

definition parseTransactions :: "(number \<Rightarrow> jsstring) \<Rightarrow> Transaction list \<Rightarrow> jsstring" where
  "parseTransactions toLocaleString transactions =
     (let total = foldl (\<lambda>sum transaction. num_add sum (t_amount transaction)) (Fin 0) transactions;
          text = join [10] (map (entry_line toLocaleString) transactions);
          totalEmoji = (if num_ge0 total then emoji_total_up else emoji_total_down);
          totalSign = (if num_ge0 total then str ''+'' else str ''-'');
          formattedTotal = toLocaleString (num_abs total)
      in text @ [10, 10] @ totalEmoji @ str '' Total: '' @ totalSign @ formattedTotal)"

text \<open>
  One host formatter, for evaluating examples: the en-US rendering of a non-negative
  integer, digits in groups of three separated by commas. No example applies it to
  any other number.
\<close>

fun group3 :: "jsstring \<Rightarrow> jsstring" where
  "group3 (a # b # c # d # ds) = a # b # c # 44 # group3 (d # ds)"
| "group3 ds = ds"

definition en_US :: "number \<Rightarrow> jsstring" where
  "en_US x =
     (case x of
        Fin q \<Rightarrow> (if q < 0 then str ''-'' else []) @ rev (group3 (rev (show_nat (nat \<lfloor>\<bar>q\<bar>\<rfloor>))))
      | PosInf \<Rightarrow> [8734]
      | NegInf \<Rightarrow> [45, 8734]
      | NaN \<Rightarrow> str ''NaN'')"

section \<open>The persisted bot: the store\<close>

text \<open>
  The two tables \<open>Accounts\<close> and \<open>Transactions\<close>, as the rows in the order of insertion (the transactions of an
  account are read back \<open>ORDER BY created_at\<close>). The schema is not part of the
  sources: whether the engine accepts a row (uniqueness, column types, foreign keys)
  is the parameter \<open>accepts\<close> of each insert, and the fresh identifier \<open>v7()\<close> is a
  parameter too. Failures of the engine on reads are not modelled.
\<close>

record db =
  Accounts :: "Account list"
  Transactions :: "Transaction list"

datatype db_error =
    EmptyAccountName
  | EmptyLabel
  | InvalidAmount
  | EmptyAccountId
  | AccountNotFound jsstring
  | InsertFailed

fun is_validation_error :: "db_error \<Rightarrow> bool" where
  "is_validation_error EmptyAccountName = True"
| "is_validation_error EmptyLabel = True"
| "is_validation_error InvalidAmount = True"
| "is_validation_error EmptyAccountId = True"
| "is_validation_error _ = False"

text \<open>The test \<open>!s || s.trim().length === 0\<close>.\<close>

definition blank :: "jsstring \<Rightarrow> bool" where
  "blank s \<longleftrightarrow> s = [] \<or> length (trim s) = 0"

definition selectAccountById :: "db \<Rightarrow> jsstring \<Rightarrow> Account option" where
  "selectAccountById d i = find (\<lambda>a. a_id a = i) (Accounts d)"

definition selectTransactionsByAccount :: "db \<Rightarrow> jsstring \<Rightarrow> Transaction list" where
  "selectTransactionsByAccount d i = filter (\<lambda>t. t_account t = i) (Transactions d)"

definition createAccount ::
  "(db \<Rightarrow> Account \<Rightarrow> bool) \<Rightarrow> jsstring \<Rightarrow> jsstring \<Rightarrow> db \<Rightarrow> (db_error + Account) \<times> db"
where
  "createAccount accepts new_id name d =
     (if blank name then (Inl EmptyAccountName, d)
      else
        let row = \<lparr>a_id = new_id, a_name = trim name\<rparr> in
        if accepts d row then (Inr row, d\<lparr>Accounts := Accounts d @ [row]\<rparr>)
        else (Inl InsertFailed, d))"

definition createTransaction ::
  "(db \<Rightarrow> Transaction \<Rightarrow> bool) \<Rightarrow> jsstring \<Rightarrow> CreateTransactionParams \<Rightarrow> db
     \<Rightarrow> (db_error + Transaction) \<times> db"
where
  "createTransaction accepts new_id params d =
     (if blank (p_label params) then (Inl EmptyLabel, d)
      else if isNaN (p_amount params) then (Inl InvalidAmount, d)
      else if blank (p_accountId params) then (Inl EmptyAccountId, d)
      else
        (case selectAccountById d (p_accountId params) of
           None \<Rightarrow> (Inl (AccountNotFound (p_accountId params)), d)
         | Some account \<Rightarrow>
             let row = \<lparr>t_id = new_id, t_label = trim (p_label params),
                        t_amount = p_amount params, t_account = p_accountId params\<rparr> in
             if accepts d row then (Inr row, d\<lparr>Transactions := Transactions d @ [row]\<rparr>)
             else (Inl InsertFailed, d)))"

definition getTransactionInAccount :: "db \<Rightarrow> jsstring \<Rightarrow> db_error + Transaction list" where
  "getTransactionInAccount d accountId =
     (if blank accountId then Inl EmptyAccountId
      else
        (case selectAccountById d accountId of
           None \<Rightarrow> Inl (AccountNotFound accountId)
         | Some account \<Rightarrow> Inr (selectTransactionsByAccount d accountId)))"

definition getAccountBalance :: "db \<Rightarrow> jsstring \<Rightarrow> db_error + number" where
  "getAccountBalance d accountId =
     (case getTransactionInAccount d accountId of
        Inl e \<Rightarrow> Inl e
      | Inr transactions \<Rightarrow>
          Inr (foldl (\<lambda>balance transaction. num_add balance (t_amount transaction)) (Fin 0) transactions))"

section \<open>The persisted bot: the text handler\<close>

text \<open>
  The entry file of the persisted bot keeps two globals, the selected account and
  whether the next text names a new account, beside the database. Its handler for
  a text message (reached only by a whitelisted sender; the middleware that checks
  it is not modelled) creates the account, or parses the text as a transaction,
  stores it with the amount \<open>amount * (sign === "negative" ? -1 : 1)\<close> and replies
  with the report of all rows of the selected account. An exception of
  \<open>createTransaction\<close> or \<open>getTransactionInAccount\<close> is not caught in the handler:
  it is the \<open>Inl\<close> outcome, with no reply.
\<close>

record manager =
  store :: db
  selectedAccountId :: "jsstring option"
  awaitingAccountCreation :: bool

datatype uncaught = ParserRaised parse_error | StoreRaised db_error

definition invalid_format_message :: jsstring where
  "invalid_format_message =
     [10060] @ str '' Invalid transaction format. Expected: \"3000 for rent\", \"+200 groceries\", \"phone bill -150\", or \"-50 coffee\"''"

definition on_text ::
  "(db \<Rightarrow> Account \<Rightarrow> bool) \<Rightarrow> (db \<Rightarrow> Transaction \<Rightarrow> bool) \<Rightarrow> jsstring \<Rightarrow> (number \<Rightarrow> jsstring)
     \<Rightarrow> jsstring \<Rightarrow> manager \<Rightarrow> (uncaught + jsstring list) \<times> manager"
where
  "on_text accepts_account accepts_row new_id toLocaleString text st =
     (if awaitingAccountCreation st then
        (case createAccount accepts_account new_id text (store st) of
           (Inr account, d) \<Rightarrow>
             (Inr [[9989] @ str '' Account \"'' @ text @ str ''\" created successfully.''],
              st\<lparr>store := d, awaitingAccountCreation := False\<rparr>)
         | (Inl error, d) \<Rightarrow>
             (Inr [[10060] @ str '' Failed to create account!''],
              st\<lparr>store := d, awaitingAccountCreation := False\<rparr>))
      else
        (case selectedAccountId st of
           None \<Rightarrow> (Inr [str ''No account selected''], st)
         | Some accountId \<Rightarrow>
             if accountId = [] then (Inr [str ''No account selected''], st)
             else
               (case parseMessage text of
                  Inl e \<Rightarrow> (Inl (ParserRaised e), st)
                | Inr None \<Rightarrow> (Inr [invalid_format_message], st)
                | Inr (Some transaction) \<Rightarrow>
                    (case createTransaction accepts_row new_id
                            \<lparr>p_label = label transaction,
                             p_amount = num_mul (amount transaction)
                                          (if sign transaction = Negative then Fin (- 1) else Fin 1),
                             p_accountId = accountId\<rparr> (store st) of
                       (Inl e, d) \<Rightarrow> (Inl (StoreRaised e), st\<lparr>store := d\<rparr>)
                     | (Inr row, d) \<Rightarrow>
                         (case getTransactionInAccount d accountId of
                            Inl e \<Rightarrow> (Inl (StoreRaised e), st\<lparr>store := d\<rparr>)
                          | Inr transactions \<Rightarrow>
                              (Inr [parseTransactions toLocaleString transactions],
                               st\<lparr>store := d\<rparr>))))))"

section \<open>The in-memory bot\<close>

record FinancialEntry =
  description :: jsstring
  entry_amount :: number
  date :: jsstring

record Receipt =
  receipt_name :: jsstring
  entries :: "FinancialEntry list"

record UserSession =
  currentReceipt :: "jsstring option"

text \<open>The two global maps \<open>receipts\<close> and \<open>userSessions\<close>.\<close>

record bot =
  receipts :: "jsstring \<rightharpoonup> Receipt"
  userSessions :: "int \<rightharpoonup> UserSession"

definition getUserSession :: "int \<Rightarrow> bot \<Rightarrow> UserSession \<times> bot" where
  "getUserSession userId st =
     (case userSessions st userId of
        None \<Rightarrow> (\<lparr>currentReceipt = None\<rparr>,
                 st\<lparr>userSessions := (userSessions st)(userId \<mapsto> \<lparr>currentReceipt = None\<rparr>)\<rparr>)
      | Some session \<Rightarrow> (session, st))"

definition getReceipt :: "jsstring \<Rightarrow> bot \<Rightarrow> Receipt \<times> bot" where
  "getReceipt receiptName st =
     (case receipts st receiptName of
        None \<Rightarrow> (\<lparr>receipt_name = receiptName, entries = []\<rparr>,
                 st\<lparr>receipts := (receipts st)(receiptName \<mapsto> \<lparr>receipt_name = receiptName, entries = []\<rparr>)\<rparr>)
      | Some receipt \<Rightarrow> (receipt, st))"

text \<open>
  The match array of \<^verbatim>\<open>/(.+?)\s*([+-]\d+)/\<close>, a pattern without anchors: two capture
  groups.
\<close>

record entry_match =
  m1 :: "jsstring option"
  m2 :: "jsstring option"

definition entry_pattern_at :: "jsstring \<Rightarrow> entry_match option" where
  "entry_pattern_at s =
     lazy_plus is_dot (\<lambda>d r1.
       greedy_star is_ws (\<lambda>_ r2.
         one_of is_sign (\<lambda>sg r3.
           greedy_plus is_digit (\<lambda>ds r4.
             Some \<lparr>m1 = Some d, m2 = Some (sg @ ds)\<rparr>) r3) r2) [] r1) s"

definition entry_pattern :: "jsstring \<Rightarrow> entry_match option" where
  "entry_pattern s = search entry_pattern_at s"

text \<open>
  The loop over the lines. \<open>currentDate\<close> is the day the host clock gives; it is a
  parameter.
\<close>

fun parse_lines ::
  "jsstring \<Rightarrow> FinancialEntry list \<Rightarrow> jsstring list \<Rightarrow> parse_error + FinancialEntry list"
where
  "parse_lines currentDate es [] = Inr es"
| "parse_lines currentDate es (line # lines) =
     (case entry_pattern line of
        None \<Rightarrow> parse_lines currentDate es lines
      | Some m \<Rightarrow>
          (case m1 m of
             None \<Rightarrow> Inl TypeError
           | Some d \<Rightarrow>
               parse_lines currentDate
                 (es @ [\<lparr>description = trim d, entry_amount = parseInt_capture (m2 m),
                         date = currentDate\<rparr>]) lines))"

definition parseFinancialEntries :: "jsstring \<Rightarrow> jsstring \<Rightarrow> parse_error + FinancialEntry list" where
  "parseFinancialEntries currentDate text =
     (let lines = filter (\<lambda>line. trim line \<noteq> []) (split_on 10 text)
      in parse_lines currentDate [] lines)"

definition addEntriesToReceipt :: "jsstring \<Rightarrow> FinancialEntry list \<Rightarrow> bot \<Rightarrow> bot" where
  "addEntriesToReceipt receiptName es st =
     (let (receipt, st1) = getReceipt receiptName st
      in st1\<lparr>receipts := (receipts st1)(receiptName \<mapsto> receipt\<lparr>entries := entries receipt @ es\<rparr>)\<rparr>)"

definition calculateReceiptTotal :: "bot \<Rightarrow> jsstring \<Rightarrow> number" where
  "calculateReceiptTotal st receiptName =
     (case receipts st receiptName of
        None \<Rightarrow> Fin 0
      | Some receipt \<Rightarrow>
          foldl (\<lambda>total entry. num_add total (entry_amount entry)) (Fin 0) (entries receipt))"

definition format_entry :: "FinancialEntry \<Rightarrow> jsstring" where
  "format_entry entry =
     str ''- '' @ description entry @ str '' '' @
     (if num_ge0 (entry_amount entry) then str ''+'' else []) @ Number_toString (entry_amount entry) @
     str '' ['' @ date entry @ str '']'' @ [10]"

definition formatResponse :: "bot \<Rightarrow> jsstring \<Rightarrow> jsstring" where
  "formatResponse st receiptName =
     (case receipts st receiptName of
        None \<Rightarrow> str ''Receipt \"'' @ receiptName @ str ''\" not found.''
      | Some receipt \<Rightarrow>
          let total = calculateReceiptTotal st receiptName in
          str ''**Receipt: '' @ receiptName @ str ''**'' @ [10, 10] @
          str ''```'' @ [10] @
          concat (map format_entry (entries receipt)) @
          [10] @ str ''Total: '' @ (if num_ge0 total then str ''+'' else []) @ Number_toString total @ [10] @
          str ''```'')"

subsection \<open>The handlers\<close>

text \<open>
  What a handler reads from its context: the sender's id (\<open>ctx.from?.id\<close>) and the
  text of the message, either of which may be missing. A handler returns the replies
  it sends and the new state of the two maps.
\<close>

record ctx =
  from_id :: "int option"
  message_text :: "jsstring option"

definition command_args :: "ctx \<Rightarrow> jsstring list" where
  "command_args c = (case message_text c of None \<Rightarrow> [] | Some t \<Rightarrow> drop 1 (split_on 32 t))"

definition new_command :: "ctx \<Rightarrow> bot \<Rightarrow> jsstring list \<times> bot" where
  "new_command c st =
     (let args = command_args c in
      if length args = 0 then
        ([str ''Please provide a receipt name. Usage: /new <receipt_name>''], st)
      else
        let receiptName = join (str ''_'') args in
        case from_id c of
          None \<Rightarrow> ([], st)
        | Some userId \<Rightarrow>
            if userId = 0 then ([], st)
            else
              let (receipt, st1) = getReceipt receiptName st;
                  (session, st2) = getUserSession userId st1;
                  st3 = st2\<lparr>userSessions :=
                          (userSessions st2)(userId \<mapsto> session\<lparr>currentReceipt := Some receiptName\<rparr>)\<rparr>
              in ([[9989] @ str '' Created new receipt: \"'' @ receiptName @ str ''\"'' @ [10] @
                   str ''You can now add entries to this receipt.''], st3))"

definition delete_command :: "ctx \<Rightarrow> bot \<Rightarrow> jsstring list \<times> bot" where
  "delete_command c st =
     (let args = command_args c in
      if length args = 0 then
        ([str ''Please provide a receipt name. Usage: /delete <receipt_name>''], st)
      else
        let receiptName = join (str ''_'') args in
        if receipts st receiptName = None then
          ([[10060] @ str '' Receipt \"'' @ receiptName @ str ''\" not found.''], st)
        else
          let st1 = st\<lparr>receipts := (receipts st)(receiptName := None)\<rparr>;
              st2 = (case from_id c of
                       None \<Rightarrow> st1
                     | Some userId \<Rightarrow>
                         if userId = 0 then st1
                         else
                           let (session, st') = getUserSession userId st1 in
                           if currentReceipt session = Some receiptName then
                             st'\<lparr>userSessions :=
                                   (userSessions st')(userId \<mapsto> session\<lparr>currentReceipt := None\<rparr>)\<rparr>
                           else st')
          in ([[55357, 56785, 65039] @ str '' Deleted receipt: \"'' @ receiptName @ str ''\"''], st2))"

text \<open>The test \<open>!currentReceipt\<close>: \<open>undefined\<close> and the empty string are both falsy.\<close>

definition selected :: "UserSession \<Rightarrow> jsstring option" where
  "selected session =
     (case currentReceipt session of
        None \<Rightarrow> None
      | Some n \<Rightarrow> if n = [] then None else Some n)"

definition no_entries_message :: "jsstring \<Rightarrow> jsstring" where
  "no_entries_message cur =
     [55357, 56523] @ str '' Current receipt: \"'' @ cur @ str ''\"'' @ [10] @ str ''No entries yet.''"

definition current_command :: "ctx \<Rightarrow> bot \<Rightarrow> jsstring list \<times> bot" where
  "current_command c st =
     (case from_id c of
        None \<Rightarrow> ([], st)
      | Some userId \<Rightarrow>
          if userId = 0 then ([], st)
          else
            let (session, st1) = getUserSession userId st in
            case selected session of
              None \<Rightarrow>
                ([str ''No current receipt selected. Use /new <receipt_name> or /switch <receipt_name>''], st1)
            | Some cur \<Rightarrow>
                (case receipts st1 cur of
                   None \<Rightarrow> ([no_entries_message cur], st1)
                 | Some receipt \<Rightarrow>
                     if length (entries receipt) = 0 then ([no_entries_message cur], st1)
                     else ([formatResponse st1 cur], st1)))"

definition clear_command :: "ctx \<Rightarrow> bot \<Rightarrow> jsstring list \<times> bot" where
  "clear_command c st =
     (case from_id c of
        None \<Rightarrow> ([], st)
      | Some userId \<Rightarrow>
          if userId = 0 then ([], st)
          else
            let (session, st1) = getUserSession userId st in
            case selected session of
              None \<Rightarrow> ([str ''No current receipt selected.''], st1)
            | Some cur \<Rightarrow>
                (case receipts st1 cur of
                   None \<Rightarrow> ([], st1)
                 | Some receipt \<Rightarrow>
                     ([[55357, 56785, 65039] @ str '' Cleared all entries from receipt: \"'' @ cur @ str ''\"''],
                      st1\<lparr>receipts := (receipts st1)(cur \<mapsto> receipt\<lparr>entries := []\<rparr>)\<rparr>)))"

definition text_handler :: "jsstring \<Rightarrow> ctx \<Rightarrow> bot \<Rightarrow> jsstring list \<times> bot" where
  "text_handler currentDate c st =
     (case from_id c of
        None \<Rightarrow> ([], st)
      | Some userId \<Rightarrow>
          if userId = 0 then ([], st)
          else
            let text = (case message_text c of None \<Rightarrow> [] | Some t \<Rightarrow> t) in
            if take 1 text = str ''/'' then ([], st)
            else
              let (session, st1) = getUserSession userId st in
              case selected session of
                None \<Rightarrow>
                  ([str ''No receipt selected. Use /new <receipt_name> to create a new receipt or /switch <receipt_name> to switch to an existing one.''], st1)
              | Some cur \<Rightarrow>
                  (case parseFinancialEntries currentDate text of
                     Inl error \<Rightarrow> ([str ''Sorry, there was an error processing your request.''], st1)
                   | Inr es \<Rightarrow>
                       if length es = 0 then
                         ([str ''No valid financial entries found. Please use format like:'' @ [10] @
                           str ''pay bills -3000'' @ [10] @ str ''collected rent +4000''], st1)
                       else
                         let st2 = addEntriesToReceipt cur es st1
                         in ([formatResponse st2 cur], st2)))"

section \<open>Notions used to state the properties\<close>

text \<open>
  The two line grammars of the parser, as plain decompositions of a trimmed line:
  amount-first is an optional sign, digits, white space and a label; label-first is a
  label, white space, a sign and digits. A label is free text without a line
  terminator.
\<close>

definition amount_first_form :: "jsstring \<Rightarrow> bool" where
  "amount_first_form t \<longleftrightarrow>
     (\<exists>sg ds ws lbl. t = sg @ ds @ ws @ lbl \<and>
        (sg = [] \<or> sg = str ''+'' \<or> sg = str ''-'') \<and>
        ds \<noteq> [] \<and> (\<forall>c\<in>set ds. is_digit c) \<and>
        ws \<noteq> [] \<and> (\<forall>c\<in>set ws. is_ws c) \<and>
        lbl \<noteq> [] \<and> (\<forall>c\<in>set lbl. is_dot c))"

definition label_first_form :: "jsstring \<Rightarrow> bool" where
  "label_first_form t \<longleftrightarrow>
     (\<exists>lbl ws sg ds. t = lbl @ ws @ sg @ ds \<and>
        lbl \<noteq> [] \<and> (\<forall>c\<in>set lbl. is_dot c) \<and>
        ws \<noteq> [] \<and> (\<forall>c\<in>set ws. is_ws c) \<and>
        (sg = str ''+'' \<or> sg = str ''-'') \<and>
        ds \<noteq> [] \<and> (\<forall>c\<in>set ds. is_digit c))"

text \<open>
  The amount-first reading of a line, computed from the left: the optional sign, the
  run of digits after it (as a number: the double nearest to their value), and the
  rest as the label.
\<close>

definition amount_first_reading :: "jsstring \<Rightarrow> ParsedTransaction" where
  "amount_first_reading t =
     (let (sg, r) = (case t of
                       [] \<Rightarrow> ([], [])
                     | c # cs \<Rightarrow> if is_sign c then ([c], cs) else ([], t))
      in \<lparr>label = trim (dropWhile is_digit r),
          sign = (if sg = str ''-'' then Negative else Positive),
          amount = round_double (of_int (decimal (takeWhile is_digit r)))\<rparr>)"

text \<open>A string without white space at either end, as \<open>trim\<close> returns it.\<close>

definition trimmed :: "jsstring \<Rightarrow> bool" where
  "trimmed t \<longleftrightarrow> t = [] \<or> (\<not> is_ws (hd t) \<and> \<not> is_ws (last t))"

text \<open>
  What one line contributes to the result of \<open>parseFinancialEntries\<close>: the entry of
  the first match of the pattern in it, if there is one.
\<close>

definition line_entries :: "jsstring \<Rightarrow> jsstring \<Rightarrow> FinancialEntry list" where
  "line_entries currentDate line =
     (case entry_pattern line of
        None \<Rightarrow> []
      | Some m \<Rightarrow>
          (case m1 m of
             Some d \<Rightarrow> [\<lparr>description = trim d, entry_amount = parseInt_capture (m2 m),
                         date = currentDate\<rparr>]
           | None \<Rightarrow> []))"

text \<open>
  A line has a signed number when a sign directly followed by a digit occurs in it
  after the first character.
\<close>

fun has_signed_number :: "jsstring \<Rightarrow> bool" where
  "has_signed_number (a # c # x # b) = ((is_sign c \<and> is_digit x) \<or> has_signed_number (c # x # b))"
| "has_signed_number _ = False"

text \<open>
  The entries of a receipt (none when the receipt does not exist), the active receipt
  of a user, and the three operations on the ledger of the in-memory bot: appending
  entries (\<open>addEntriesToReceipt\<close>), the assignment \<open>receipt.entries = []\<close> of the
  \<open>/clear\<close> handler, and \<open>receipts.delete\<close> of the \<open>/delete\<close> handler. \<open>live_step\<close>
  follows a history of operations for one receipt name: the entries appended and
  neither cleared nor deleted since.
\<close>

definition entries_of :: "bot \<Rightarrow> jsstring \<Rightarrow> FinancialEntry list" where
  "entries_of st n = (case receipts st n of None \<Rightarrow> [] | Some receipt \<Rightarrow> entries receipt)"

definition active :: "bot \<Rightarrow> int \<Rightarrow> jsstring option" where
  "active st userId =
     (case userSessions st userId of None \<Rightarrow> None | Some session \<Rightarrow> currentReceipt session)"

definition clear_entries :: "jsstring \<Rightarrow> bot \<Rightarrow> bot" where
  "clear_entries n st =
     (case receipts st n of
        None \<Rightarrow> st
      | Some receipt \<Rightarrow> st\<lparr>receipts := (receipts st)(n \<mapsto> receipt\<lparr>entries := []\<rparr>)\<rparr>)"

definition delete_receipt :: "jsstring \<Rightarrow> bot \<Rightarrow> bot" where
  "delete_receipt n st = st\<lparr>receipts := (receipts st)(n := None)\<rparr>"

datatype ledger_op = Append jsstring "FinancialEntry list" | Clear jsstring | Delete jsstring

fun apply_op :: "bot \<Rightarrow> ledger_op \<Rightarrow> bot" where
  "apply_op st (Append n es) = addEntriesToReceipt n es st"
| "apply_op st (Clear n) = clear_entries n st"
| "apply_op st (Delete n) = delete_receipt n st"

fun live_step :: "jsstring \<Rightarrow> FinancialEntry list \<Rightarrow> ledger_op \<Rightarrow> FinancialEntry list" where
  "live_step n acc (Append m es) = (if m = n then acc @ es else acc)"
| "live_step n acc (Clear m) = (if m = n then [] else acc)"
| "live_step n acc (Delete m) = (if m = n then [] else acc)"

text \<open>
  Integer amounts whose running sums, from the left, all stay within the range
  \<open>-2^53 .. 2^53\<close> in which every integer is a double.
\<close>

fun safe_sums :: "int \<Rightarrow> int list \<Rightarrow> bool" where
  "safe_sums a [] = (\<bar>a\<bar> \<le> 2 ^ 53)"
| "safe_sums a (k # ks) = (\<bar>a\<bar> \<le> 2 ^ 53 \<and> \<bar>k\<bar> \<le> 2 ^ 53 \<and> safe_sums (a + k) ks)"

definition int_amounts :: "int list \<Rightarrow> number list" where
  "int_amounts ks = map (\<lambda>k. Fin (of_int k)) ks"

text \<open>
  The two ways an amount is written in a report: by \<open>parseTransactions\<close>, a sign
  and the locale rendering of the absolute value; by \<open>formatResponse\<close>, for an
  integer within \<open>-2^53 .. 2^53\<close>, a sign and the plain decimal digits.
\<close>

definition signed_amount :: "(number \<Rightarrow> jsstring) \<Rightarrow> number \<Rightarrow> jsstring" where
  "signed_amount toLocaleString a =
     (if num_ge0 a then str ''+'' else str ''-'') @ toLocaleString (num_abs a)"

definition plain_signed :: "int \<Rightarrow> jsstring" where
  "plain_signed a =
     (if a \<ge> 0 then str ''+'' @ show_nat (nat a) else str ''-'' @ show_nat (nat (- a)))"

section \<open>Example values\<close>

text \<open>
  A store of the in-memory bot with two receipts, one of them empty, and two users,
  whose active receipts are \<open>food\<close> and the empty \<open>home\<close>; and a database with one
  account and two rows.
\<close>

definition milk :: FinancialEntry where
  "milk = \<lparr>description = str ''milk'', entry_amount = Fin (- 25), date = str ''2024-01-01''\<rparr>"

definition bread :: FinancialEntry where
  "bread = \<lparr>description = str ''bread'', entry_amount = Fin (- 15), date = str ''2024-01-01''\<rparr>"

definition rent :: FinancialEntry where
  "rent = \<lparr>description = str ''rent'', entry_amount = Fin (- 3000), date = str ''2024-01-01''\<rparr>"

definition example_bot :: bot where
  "example_bot =
     \<lparr>receipts = [str ''food'' \<mapsto> \<lparr>receipt_name = str ''food'', entries = [milk, bread]\<rparr>,
                  str ''home'' \<mapsto> \<lparr>receipt_name = str ''home'', entries = []\<rparr>],
      userSessions = [7 \<mapsto> \<lparr>currentReceipt = Some (str ''food'')\<rparr>,
                      8 \<mapsto> \<lparr>currentReceipt = Some (str ''home'')\<rparr>]\<rparr>"

definition example_db :: db where
  "example_db =
     \<lparr>Accounts = [\<lparr>a_id = str ''a1'', a_name = str ''food''\<rparr>],
      Transactions = [\<lparr>t_id = str ''t1'', t_label = str ''milk'', t_amount = Fin (- 25), t_account = str ''a1''\<rparr>,
                      \<lparr>t_id = str ''t2'', t_label = str ''bread'', t_amount = Fin (- 15), t_account = str ''a1''\<rparr>]\<rparr>"

section \<open>Lemmas on the backtracking matcher\<close>

lemma greedy_star_first:
  "k (acc @ takeWhile P s) (dropWhile P s) = Some r \<Longrightarrow> greedy_star P k acc s = Some r"
  by (induction s arbitrary: acc) auto

lemma greedy_star_sound:
  "greedy_star P k acc s = Some r \<Longrightarrow>
   \<exists>xs ys. s = xs @ ys \<and> (\<forall>c\<in>set xs. P c) \<and> k (acc @ xs) ys = Some r"
proof (induction s arbitrary: acc)
  case Nil
  then show ?case by simp
next
  case (Cons c cs)
  show ?case
  proof (cases "P c \<and> greedy_star P k (acc @ [c]) cs \<noteq> None")
    case True
    with Cons.prems have "greedy_star P k (acc @ [c]) cs = Some r" by auto
    from Cons.IH[OF this] obtain xs ys where
      "cs = xs @ ys" "\<forall>c\<in>set xs. P c" "k ((acc @ [c]) @ xs) ys = Some r" by blast
    with True have "c # cs = (c # xs) @ ys \<and> (\<forall>x\<in>set (c # xs). P x) \<and> k (acc @ c # xs) ys = Some r"
      by simp
    then show ?thesis by blast
  next
    case False
    with Cons.prems have "k (acc @ []) (c # cs) = Some r" by (auto split: if_splits)
    then show ?thesis by (metis append_Nil empty_iff list.set(1))
  qed
qed

lemma greedy_star_det:
  assumes "\<And>a c cs. P c \<Longrightarrow> k a (c # cs) = None"
  shows "greedy_star P k acc s = k (acc @ takeWhile P s) (dropWhile P s)"
proof (induction s arbitrary: acc)
  case Nil
  then show ?case by simp
next
  case (Cons c cs)
  show ?case
  proof (cases "P c")
    case True
    with assms have "k acc (c # cs) = None" by simp
    with True Cons.IH[of "acc @ [c]"] show ?thesis by (simp split: option.splits)
  next
    case False
    then show ?thesis by simp
  qed
qed

lemma greedy_plus_first:
  "takeWhile P s \<noteq> [] \<Longrightarrow> k (takeWhile P s) (dropWhile P s) = Some r \<Longrightarrow> greedy_plus P k s = Some r"
  by (cases s) (auto simp: greedy_plus_def intro: greedy_star_first split: if_splits)

lemma greedy_plus_sound:
  assumes "greedy_plus P k s = Some r"
  shows "\<exists>xs ys. s = xs @ ys \<and> xs \<noteq> [] \<and> (\<forall>c\<in>set xs. P c) \<and> k xs ys = Some r"
proof (cases s)
  case Nil
  with assms show ?thesis by (simp add: greedy_plus_def)
next
  case (Cons c cs)
  with assms have pc: "P c" and g: "greedy_star P k [c] cs = Some r"
    by (auto simp: greedy_plus_def split: if_splits)
  from greedy_star_sound[OF g] obtain xs ys where
    "cs = xs @ ys" "\<forall>c\<in>set xs. P c" "k ([c] @ xs) ys = Some r" by blast
  with pc Cons have "s = (c # xs) @ ys \<and> c # xs \<noteq> [] \<and> (\<forall>x\<in>set (c # xs). P x) \<and> k (c # xs) ys = Some r"
    by simp
  then show ?thesis by blast
qed

lemma greedy_plus_det:
  assumes "\<And>a c cs. P c \<Longrightarrow> k a (c # cs) = None"
  shows "greedy_plus P k s = (if takeWhile P s = [] then None else k (takeWhile P s) (dropWhile P s))"
  by (cases s) (simp_all add: greedy_plus_def greedy_star_det[of P k, OF assms])

lemma lazy_star_hit: "k acc s = Some r \<Longrightarrow> lazy_star P k acc s = Some r"
  by (cases s) simp_all

lemma lazy_star_skip:
  assumes "\<forall>c\<in>set xs. P c"
    and "\<And>us vs. xs = us @ vs \<Longrightarrow> vs \<noteq> [] \<Longrightarrow> k (acc @ us) (vs @ ys) = None"
  shows "lazy_star P k acc (xs @ ys) = lazy_star P k (acc @ xs) ys"
  using assms
proof (induction xs arbitrary: acc)
  case Nil
  then show ?case by simp
next
  case (Cons x xs)
  have here: "k acc ((x # xs) @ ys) = None"
    using Cons.prems(2)[of "[]" "x # xs"] by simp
  have later: "\<And>us vs. xs = us @ vs \<Longrightarrow> vs \<noteq> [] \<Longrightarrow> k ((acc @ [x]) @ us) (vs @ ys) = None"
    using Cons.prems(2)[of "x # us" for us] by simp
  from Cons.prems(1) have "\<forall>c\<in>set xs. P c" "P x" by simp_all
  with Cons.IH[of "acc @ [x]", OF _ later] here show ?case by simp
qed

lemma lazy_star_sound:
  "lazy_star P k acc s = Some r \<Longrightarrow>
   \<exists>xs ys. s = xs @ ys \<and> (\<forall>c\<in>set xs. P c) \<and> k (acc @ xs) ys = Some r"
proof (induction s arbitrary: acc)
  case Nil
  then show ?case by simp
next
  case (Cons c cs)
  show ?case
  proof (cases "k acc (c # cs)")
    case (Some a)
    with Cons.prems have "k (acc @ []) (c # cs) = Some r" by simp
    then show ?thesis by (metis append_Nil empty_iff list.set(1))
  next
    case None
    with Cons.prems have pc: "P c" and l: "lazy_star P k (acc @ [c]) cs = Some r"
      by (auto split: if_splits)
    from Cons.IH[OF l] obtain xs ys where
      "cs = xs @ ys" "\<forall>c\<in>set xs. P c" "k ((acc @ [c]) @ xs) ys = Some r" by blast
    with pc have "c # cs = (c # xs) @ ys \<and> (\<forall>x\<in>set (c # xs). P x) \<and> k (acc @ c # xs) ys = Some r"
      by simp
    then show ?thesis by blast
  qed
qed

lemma lazy_plus_sound:
  assumes "lazy_plus P k s = Some r"
  shows "\<exists>xs ys. s = xs @ ys \<and> xs \<noteq> [] \<and> (\<forall>c\<in>set xs. P c) \<and> k xs ys = Some r"
proof (cases s)
  case Nil
  with assms show ?thesis by (simp add: lazy_plus_def)
next
  case (Cons c cs)
  with assms have pc: "P c" and g: "lazy_star P k [c] cs = Some r"
    by (auto simp: lazy_plus_def split: if_splits)
  from lazy_star_sound[OF g] obtain xs ys where
    "cs = xs @ ys" "\<forall>c\<in>set xs. P c" "k ([c] @ xs) ys = Some r" by blast
  with pc Cons have "s = (c # xs) @ ys \<and> c # xs \<noteq> [] \<and> (\<forall>x\<in>set (c # xs). P x) \<and> k (c # xs) ys = Some r"
    by simp
  then show ?thesis by blast
qed

lemma search_sound: "search m s = Some r \<Longrightarrow> \<exists>pre s'. s = pre @ s' \<and> m s' = Some r"
proof (induction s)
  case Nil
  then show ?case by simp
next
  case (Cons c cs)
  show ?case
  proof (cases "m (c # cs)")
    case None
    with Cons.prems have "search m cs = Some r" by simp
    from Cons.IH[OF this] obtain pre s' where "cs = pre @ s'" "m s' = Some r" by blast
    then have "c # cs = (c # pre) @ s' \<and> m s' = Some r" by simp
    then show ?thesis by blast
  next
    case (Some a)
    with Cons.prems have "c # cs = [] @ (c # cs) \<and> m (c # cs) = Some r" by simp
    then show ?thesis by blast
  qed
qed

lemma search_hit: "m s = Some r \<Longrightarrow> search m s = Some r"
  by (cases s) simp_all



section \<open>Character classes, trimming and \<open>parseInt\<close>\<close>

lemma digit_not_ws: "is_digit c \<Longrightarrow> \<not> is_ws c"
  by (auto simp: is_digit_def is_ws_def is_line_terminator_def)

lemma sign_not_ws: "is_sign c \<Longrightarrow> \<not> is_ws c"
  by (auto simp: is_sign_def is_ws_def is_line_terminator_def)

lemma sign_not_digit: "is_sign c \<Longrightarrow> \<not> is_digit c"
  by (auto simp: is_sign_def is_digit_def)

lemma non_ws_is_dot: "\<not> is_ws c \<Longrightarrow> is_dot c"
  by (auto simp: is_dot_def is_ws_def)

lemma dropWhile_keeps: "\<not> P y \<Longrightarrow> \<exists>zs. dropWhile P (xs @ y # ys) = zs @ y # ys"
  by (induction xs) auto

lemma takeWhile_all: "\<forall>c\<in>set xs. P c \<Longrightarrow> ys = [] \<or> \<not> P (hd ys) \<Longrightarrow> takeWhile P (xs @ ys) = xs"
  by (cases ys) (auto simp: takeWhile_append2 takeWhile_eq_all_conv)

lemma dropWhile_all: "\<forall>c\<in>set xs. P c \<Longrightarrow> ys = [] \<or> \<not> P (hd ys) \<Longrightarrow> dropWhile P (xs @ ys) = ys"
  by (cases ys) (auto simp: dropWhile_append2)

lemma trim_Nil_or: "trim t = [] \<or> (\<not> is_ws (hd (trim t)) \<and> \<not> is_ws (last (trim t)))"
proof (cases "trim t = []")
  case True
  then show ?thesis by simp
next
  case False
  let ?u = "dropWhile is_ws t"
  let ?v = "dropWhile is_ws (rev ?u)"
  from False have v: "?v \<noteq> []" by (simp add: trim_def)
  then have "\<not> is_ws (hd ?v)" by (rule hd_dropWhile)
  moreover have "last (trim t) = hd ?v" using v by (simp add: trim_def last_rev)
  moreover have "hd (trim t) = last ?v" using v by (simp add: trim_def hd_rev)
  moreover have "last ?v = last (rev ?u)"
    using v by (metis last_appendR takeWhile_dropWhile_id)
  moreover have "?u \<noteq> []"
  proof
    assume "?u = []"
    then have "?v = []" by (simp only: rev.simps dropWhile.simps)
    with v show False by simp
  qed
  then have "\<not> is_ws (hd ?u)" by (rule hd_dropWhile)
  moreover have "last (rev ?u) = hd ?u" using \<open>?u \<noteq> []\<close> by (simp add: last_rev)
  ultimately show ?thesis by simp
qed

lemma trim_fixed: "s \<noteq> [] \<Longrightarrow> \<not> is_ws (hd s) \<Longrightarrow> \<not> is_ws (last s) \<Longrightarrow> trim s = s"
proof -
  assume a: "s \<noteq> []" "\<not> is_ws (hd s)" "\<not> is_ws (last s)"
  then have "dropWhile is_ws s = s" by (cases s) auto
  moreover from a have "dropWhile is_ws (rev s) = rev s"
    by (cases "rev s") (auto simp: last_rev[symmetric] hd_rev)
  ultimately show ?thesis by (simp add: trim_def)
qed

lemma trim_dropWhile: "trim (dropWhile is_ws s) = trim s"
  by (simp add: trim_def)

lemma trim_all_ws: "\<forall>c\<in>set s. is_ws c \<Longrightarrow> trim s = []"
proof -
  assume "\<forall>c\<in>set s. is_ws c"
  then have "dropWhile is_ws s = []" by simp
  then show ?thesis by (simp only: trim_def rev.simps dropWhile.simps)
qed

lemma trim_append_ws: "\<forall>c\<in>set w. is_ws c \<Longrightarrow> trim (s @ w) = trim s"
proof -
  assume w: "\<forall>c\<in>set w. is_ws c"
  show ?thesis
  proof (cases "\<forall>c\<in>set s. is_ws c")
    case True
    with w have "\<forall>c\<in>set (s @ w). is_ws c" by auto
    with True show ?thesis by (simp only: trim_all_ws)
  next
    case False
    then obtain x where "x \<in> set s" "\<not> is_ws x" by auto
    then have "dropWhile is_ws (s @ w) = dropWhile is_ws s @ w"
      by (rule dropWhile_append1)
    moreover have "dropWhile is_ws (rev w @ rev (dropWhile is_ws s)) = dropWhile is_ws (rev (dropWhile is_ws s))"
      by (rule dropWhile_append2) (use w in auto)
    ultimately show ?thesis by (simp add: trim_def)
  qed
qed

lemma parse_magnitude_digits:
  "ds \<noteq> [] \<Longrightarrow> \<forall>c\<in>set ds. is_digit c \<Longrightarrow> parse_magnitude ds = Some (decimal ds)"
proof -
  assume a: "ds \<noteq> []" "\<forall>c\<in>set ds. is_digit c"
  then have t: "takeWhile is_digit ds = ds" by (simp add: takeWhile_eq_all_conv)
  have "\<And>x y ys. ds = x # y # ys \<Longrightarrow> y \<noteq> 120 \<and> y \<noteq> 88"
    using a by (auto simp: is_digit_def)
  with a show ?thesis
    unfolding parse_magnitude_def t by (auto split: list.splits)
qed

lemma parseInt_digits:
  "ds \<noteq> [] \<Longrightarrow> \<forall>c\<in>set ds. is_digit c \<Longrightarrow> parseInt ds = round_double (of_int (decimal ds))"
proof -
  assume a: "ds \<noteq> []" "\<forall>c\<in>set ds. is_digit c"
  then obtain x xs where ds: "ds = x # xs" by (cases ds) auto
  with a have dx: "is_digit x" by simp
  then have "\<not> is_ws x" "x \<noteq> 45" "x \<noteq> 43" by (auto simp: digit_not_ws is_digit_def)
  with ds parse_magnitude_digits[OF a] show ?thesis by (simp add: parseInt_def)
qed

lemma parseInt_signed:
  "is_sign c \<Longrightarrow> ds \<noteq> [] \<Longrightarrow> \<forall>x\<in>set ds. is_digit x \<Longrightarrow>
   parseInt (c # ds) = round_double (of_int (if c = 45 then - decimal ds else decimal ds))"
  using sign_not_ws[of c] by (auto simp: parseInt_def parse_magnitude_digits is_sign_def)

subsection \<open>Rounding\<close>

lemma bit_length_le: "n < 2 ^ m \<Longrightarrow> bit_length n \<le> m"
proof (induction m arbitrary: n)
  case 0
  then show ?case by (simp add: bit_length.simps)
next
  case (Suc m)
  then have "n div 2 < 2 ^ m" by simp
  from Suc.IH[OF this] show ?case by (subst bit_length.simps) simp
qed

lemma round_half_even_int: "round_half_even (of_int i) = i"
  by (simp add: round_half_even_def)

lemma round_double_pos:
  assumes "0 < q" and "floor_log2 q = e" and "pow2 (max e (- 1022) - 52) = u"
    and "round_half_even (q / u) = r" and "of_int r * u = v" and "v < 2 ^ 1024"
  shows "round_double q = Fin v"
proof -
  from assms(1) have q: "q \<noteq> 0" "\<bar>q\<bar> = q" by simp_all
  from assms(6) have v: "\<not> 2 ^ 1024 \<le> v" by simp
  show ?thesis
    unfolding round_double_def Let_def q(2) assms(2) assms(3) assms(4) assms(5)
    using q(1) v assms(1) by simp
qed

lemma round_double_neg:
  "round_double (- q) =
     (case round_double q of Fin v \<Rightarrow> Fin (- v) | PosInf \<Rightarrow> NegInf | NegInf \<Rightarrow> PosInf | NaN \<Rightarrow> NaN)"
  by (simp add: round_double_def Let_def)

lemma round_double_pos_int:
  assumes "0 < k" "k < 2 ^ 53"
  shows "round_double (of_int k) = Fin (of_int k)"
proof -
  have "nat k < 2 ^ 53" using assms by (simp add: nat_less_iff)
  from bit_length_le[OF this] have b: "bit_length (nat k) \<le> 53" .
  define p where "p = 52 - (int (bit_length (nat k)) - 1)"
  have p0: "0 \<le> p" using b by (simp add: p_def)
  have bl: "0 < bit_length (nat k)" using assms by (subst bit_length.simps) simp
  have fl: "floor_log2 (of_int k) = 52 - p"
    using assms by (simp add: floor_log2_def p_def)
  have ulp: "pow2 (max (52 - p) (- 1022) - 52) = 1 / 2 ^ nat p"
    using p0 bl by (cases "p = 0") (simp_all add: pow2_def p_def)
  have q: "(of_int k :: rat) / (1 / 2 ^ nat p) = of_int (k * 2 ^ nat p)" by simp
  have r: "round_half_even ((of_int k :: rat) / (1 / 2 ^ nat p)) = k * 2 ^ nat p"
    unfolding q by (rule round_half_even_int)
  have v: "of_int (k * 2 ^ nat p) * (1 / 2 ^ nat p) = (of_int k :: rat)" by simp
  have "(of_int k :: rat) < 2 ^ 53"
    using assms(2) by (metis of_int_less_iff of_int_numeral of_int_power)
  also have "\<dots> \<le> 2 ^ 1024" by (rule power_increasing) simp_all
  finally have lt: "(of_int k :: rat) < 2 ^ 1024" .
  have kp: "(0::rat) < of_int k" using assms by simp
  show ?thesis by (rule round_double_pos[OF kp fl ulp r v lt])
qed

lemma round_double_two53: "round_double 9007199254740992 = Fin 9007199254740992"
proof (rule round_double_pos)
  show "(0::rat) < 9007199254740992" by simp
  show "floor_log2 9007199254740992 = 53" by (simp add: floor_log2_def bit_length.simps)
  show "pow2 (max 53 (- 1022) - 52) = 2" by (simp add: pow2_def)
  show "round_half_even (9007199254740992 / 2) = 4503599627370496"
    by (simp add: round_half_even_def)
  show "of_int 4503599627370496 * (2::rat) = 9007199254740992" by simp
  show "(9007199254740992::rat) < 2 ^ 1024" by simp
qed

lemma round_double_int:
  assumes "\<bar>k\<bar> \<le> 2 ^ 53"
  shows "round_double (of_int k) = Fin (of_int k)"
proof -
  have pos: "round_double (of_int j) = Fin (of_int j)" if "0 < j" "j \<le> 2 ^ 53" for j :: int
  proof (cases "j = 2 ^ 53")
    case True
    then show ?thesis using round_double_two53 by simp
  next
    case False
    with that show ?thesis by (intro round_double_pos_int) simp_all
  qed
  consider "k = 0" | "0 < k" | "k < 0" by linarith
  then show ?thesis
  proof cases
    case 1
    then show ?thesis by (simp add: round_double_def)
  next
    case 2
    with assms show ?thesis by (intro pos) simp_all
  next
    case 3
    with assms have "round_double (of_int (- k)) = Fin (of_int (- k))" by (intro pos) simp_all
    then show ?thesis using round_double_neg[of "of_int (- k)"] by simp
  qed
qed

lemma round_double_not_NaN: "round_double q \<noteq> NaN"
  by (simp add: round_double_def Let_def)

lemma floor_numeral_div: "\<lfloor>(numeral a :: rat) / numeral b\<rfloor> = numeral a div numeral b"
  using floor_divide_of_int_eq[of "numeral a" "numeral b", where ?'a = rat] by simp

lemma ceiling_numeral_div: "\<lceil>(numeral a :: rat) / numeral b\<rceil> = - ((- numeral a) div numeral b)"
  using floor_divide_of_int_eq[of "- numeral a" "numeral b", where ?'a = rat]
  by (simp add: ceiling_def)

lemma round_double_odd: "round_double 9007199254740993 = Fin 9007199254740992"
proof (rule round_double_pos)
  show "(0::rat) < 9007199254740993" by simp
  show "floor_log2 9007199254740993 = 53" by (simp add: floor_log2_def bit_length.simps)
  show "pow2 (max 53 (- 1022) - 52) = 2" by (simp add: pow2_def)
  show "round_half_even (9007199254740993 / 2) = 4503599627370496"
    by (simp add: round_half_even_def floor_numeral_div)
  show "of_int 4503599627370496 * (2::rat) = 9007199254740992" by simp
  show "(9007199254740992::rat) < 2 ^ 1024" by simp
qed

subsection \<open>Decimal digits of an integer\<close>

lemma bit_length_gt: "2 ^ m \<le> n \<Longrightarrow> m < bit_length n"
proof (induction m arbitrary: n)
  case 0
  then show ?case by (subst bit_length.simps) simp
next
  case (Suc m)
  then have "2 ^ m \<le> n div 2" by simp
  moreover from Suc.prems have "0 < n" by (cases "n = 0") simp_all
  ultimately show ?case using Suc.IH[of "n div 2"] by (subst bit_length.simps) simp
qed

lemma decimal_length_le: "n < 10 ^ m \<Longrightarrow> decimal_length n \<le> m"
proof (induction m arbitrary: n)
  case 0
  then show ?case by (simp add: decimal_length.simps)
next
  case (Suc m)
  then have "n div 10 < 10 ^ m" by simp
  from Suc.IH[OF this] show ?case by (subst decimal_length.simps) simp
qed

lemma decimal_length_gt: "10 ^ m \<le> n \<Longrightarrow> m < decimal_length n"
proof (induction m arbitrary: n)
  case 0
  then show ?case by (subst decimal_length.simps) simp
next
  case (Suc m)
  then have "10 ^ m \<le> n div 10" by simp
  moreover from Suc.prems have "0 < n" by (cases "n = 0") simp_all
  ultimately show ?case using Suc.IH[of "n div 10"] by (subst decimal_length.simps) simp
qed

lemma decimal_length_eq:
  "10 ^ m \<le> n \<Longrightarrow> n < 10 ^ Suc m \<Longrightarrow> decimal_length n = Suc m"
  using decimal_length_le[of n "Suc m"] decimal_length_gt[of m n] by simp

lemma decimal_length_bounds:
  "0 < n \<Longrightarrow> 10 ^ (decimal_length n - 1) \<le> n \<and> n < 10 ^ decimal_length n"
proof (induction n rule: less_induct)
  case (less n)
  show ?case
  proof (cases "n < 10")
    case True
    with less.prems have "decimal_length n = 1"
      by (simp add: decimal_length.simps[of n] decimal_length.simps[of 0])
    with True less.prems show ?thesis by simp
  next
    case False
    then have p: "0 < n div 10" "n div 10 < n" by simp_all
    from less.IH[OF p(2) p(1)]
    have ih: "10 ^ (decimal_length (n div 10) - 1) \<le> n div 10" "n div 10 < 10 ^ decimal_length (n div 10)"
      by simp_all
    have dl: "decimal_length n = Suc (decimal_length (n div 10))"
      using less.prems by (subst decimal_length.simps) simp
    have pos: "0 < decimal_length (n div 10)"
      using p(1) by (subst decimal_length.simps) simp
    from ih(1) have "10 * 10 ^ (decimal_length (n div 10) - 1) \<le> n" by simp
    moreover have "10 * 10 ^ (decimal_length (n div 10) - 1) = (10::nat) ^ decimal_length (n div 10)"
      using pos by (cases "decimal_length (n div 10)") simp_all
    moreover from ih(2) have "n < 10 * 10 ^ decimal_length (n div 10)" by simp
    ultimately show ?thesis unfolding dl by simp
  qed
qed

lemma show_nat_length: "0 < n \<Longrightarrow> length (show_nat n) = decimal_length n"
proof (induction n rule: less_induct)
  case (less n)
  show ?case
  proof (cases "n < 10")
    case True
    with less.prems show ?thesis
      by (simp add: decimal_length.simps[of n] decimal_length.simps[of 0])
  next
    case False
    then have p: "0 < n div 10" "n div 10 < n" by simp_all
    from less.IH[OF p(2) p(1)] False less.prems show ?thesis
      by (subst show_nat.simps, subst decimal_length.simps) simp
  qed
qed

lemma show_nat_times10: "0 < n \<Longrightarrow> show_nat (n * 10) = show_nat n @ [48]"
  by (subst show_nat.simps) simp

lemma show_nat_zeros: "0 < n \<Longrightarrow> show_nat (n * 10 ^ t) = show_nat n @ replicate t 48"
proof (induction t)
  case 0
  then show ?case by simp
next
  case (Suc t)
  have "show_nat (n * 10 ^ Suc t) = show_nat ((n * 10 ^ t) * 10)" by (simp add: mult.assoc mult.commute)
  also have "\<dots> = show_nat (n * 10 ^ t) @ [48]" using Suc.prems by (intro show_nat_times10) simp
  also have "\<dots> = show_nat n @ replicate t 48 @ [48]" using Suc by simp
  also have "replicate t 48 @ [48::nat] = replicate (Suc t) 48" by (simp add: replicate_append_same)
  finally show ?case by simp
qed

lemma show_nat_last: "last (show_nat n) = 48 + n mod 10"
  by (subst show_nat.simps) simp

lemma show_nat_ne: "show_nat n \<noteq> []"
  by (subst show_nat.simps) simp

lemma strip_zeros_show_nat: "n mod 10 \<noteq> 0 \<Longrightarrow> strip_zeros (show_nat n) = show_nat n"
proof -
  assume a: "n mod 10 \<noteq> 0"
  have "hd (rev (show_nat n)) = 48 + n mod 10"
    using show_nat_ne[of n] show_nat_last[of n] by (simp add: hd_rev)
  with a have "hd (rev (show_nat n)) \<noteq> 48" by simp
  moreover have "rev (show_nat n) \<noteq> []" using show_nat_ne by simp
  ultimately have "dropWhile (\<lambda>c. c = 48) (rev (show_nat n)) = rev (show_nat n)"
    by (cases "rev (show_nat n)") simp_all
  then show ?thesis by (simp add: strip_zeros_def)
qed

lemma round_double_even:
  assumes "2 ^ 53 \<le> y" "y < 2 ^ 54" "even y"
  shows "round_double (of_int y) = Fin (of_int y)"
proof -
  from assms(3) obtain h where h: "y = 2 * h" by (auto elim: evenE)
  have n: "2 ^ 53 \<le> nat y" "nat y < 2 ^ 54" using assms by (simp_all add: nat_less_iff le_nat_iff)
  from bit_length_gt[OF n(1)] bit_length_le[OF n(2)] have b: "bit_length (nat y) = 54" by simp
  have yp: "(0::rat) < of_int y" "(1::rat) \<le> of_int y" using assms(1) by simp_all
  have fl: "floor_log2 (of_int y) = 53" using yp b by (simp add: floor_log2_def)
  have u: "pow2 (max 53 (- 1022) - 52) = 2" by (simp add: pow2_def)
  have q: "(of_int y :: rat) / 2 = of_int h" unfolding h by simp
  have r: "round_half_even ((of_int y :: rat) / 2) = h" unfolding q by (rule round_half_even_int)
  have v: "of_int h * (2::rat) = of_int y" unfolding h by simp
  have "(of_int y :: rat) < 2 ^ 54"
    using assms(2) by (metis of_int_less_iff of_int_numeral of_int_power)
  also have "\<dots> \<le> 2 ^ 1024" by (rule power_increasing) simp_all
  finally have lt: "(of_int y :: rat) < 2 ^ 1024" .
  show ?thesis by (rule round_double_pos[OF yp(1) fl u r v lt])
qed

lemma pow10_nat: "k \<le> L \<Longrightarrow> pow10 (int L - int k) = of_int (10 ^ (L - k))"
  by (simp add: pow10_def nat_diff_distrib')

lemma floor_div_int: "0 < P \<Longrightarrow> \<lfloor>(of_int x :: rat) / of_int P\<rfloor> = x div P"
  by (simp add: floor_divide_of_int_eq)

lemma safe_length:
  assumes "1 \<le> x" "x \<le> 2 ^ 53"
  shows "decimal_length (nat x) \<le> 16" "0 < decimal_length (nat x)"
proof -
  have "nat x < 10 ^ 16" using assms by (simp add: nat_less_iff)
  then show "decimal_length (nat x) \<le> 16" by (rule decimal_length_le)
  have "10 ^ 0 \<le> nat x" using assms by simp
  from decimal_length_gt[OF this] show "0 < decimal_length (nat x)" by simp
qed

lemma digits_candidate_none:
  assumes x: "1 \<le> x" "x \<le> 2 ^ 53"
    and k: "1 \<le> k" "k \<le> decimal_length (nat x)"
    and nd: "\<not> 10 ^ (decimal_length (nat x) - k) dvd x"
  shows "digits_candidate (of_int x) (int (decimal_length (nat x))) k = None"
proof -
  define L where "L = decimal_length (nat x)"
  define P :: int where "P = 10 ^ (L - k)"
  define lo where "lo = x div P"
  have Ppos: "0 < P" by (simp add: P_def)
  have L16: "L \<le> 16" unfolding L_def by (rule safe_length[OF x])
  have j1: "1 \<le> L - k"
  proof (rule ccontr)
    assume "\<not> 1 \<le> L - k"
    then have "L - k = 0" by simp
    with nd show False by (simp add: L_def)
  qed
  have Peven: "even P" using j1 by (cases "L - k") (simp_all add: P_def)
  have "L - k \<le> 15" using L16 k by simp
  then have "(10::int) ^ (L - k) \<le> 10 ^ 15" by (intro power_increasing) simp_all
  then have P15: "P \<le> 10 ^ 15" by (simp add: P_def)
  have md: "0 < x mod P" using nd Ppos
    by (metis L_def P_def dvd_eq_mod_eq_0 less_le pos_mod_sign)
  have xe: "x = lo * P + x mod P" by (simp add: lo_def)
  have lo0: "0 \<le> lo" using x Ppos by (simp add: lo_def pos_imp_zdiv_nonneg_iff)
  have lolt: "lo * P < x" using xe md by linarith
  have hig: "x < (lo + 1) * P"
  proof -
    have "x mod P < P" using Ppos by simp
    with xe show ?thesis by (simp add: algebra_simps)
  qed
  have lo_exact: "round_double (of_int (lo * P)) = Fin (of_int (lo * P))"
  proof (rule round_double_int)
    have "0 \<le> lo * P" using lo0 Ppos by simp
    with lolt x show "\<bar>lo * P\<bar> \<le> 2 ^ 53" by simp
  qed
  have hi_exact: "round_double (of_int ((lo + 1) * P)) = Fin (of_int ((lo + 1) * P))"
  proof (cases "(lo + 1) * P \<le> 2 ^ 53")
    case True
    have "0 \<le> (lo + 1) * P" using lo0 Ppos by simp
    with True show ?thesis by (intro round_double_int) simp
  next
    case False
    have "(lo + 1) * P = lo * P + P" by (simp add: algebra_simps)
    with lolt x P15 have "(lo + 1) * P < 2 ^ 54" by simp
    moreover have "even ((lo + 1) * P)" using Peven by simp
    ultimately show ?thesis using False by (intro round_double_even) simp_all
  qed
  have sc: "pow10 (int L - int k) = of_int P" unfolding P_def using k by (intro pow10_nat) (simp add: L_def)
  have fl: "\<lfloor>(of_int x :: rat) / of_int P\<rfloor> = lo" unfolding lo_def by (rule floor_div_int[OF Ppos])
  have "(of_int (lo * P) :: rat) < of_int x" using lolt by (simp only: of_int_less_iff)
  then have lo_ne: "round_double (of_int lo * of_int P) \<noteq> Fin (of_int x)"
    using lo_exact by simp
  have "(of_int x :: rat) < of_int ((lo + 1) * P)" using hig by (simp only: of_int_less_iff)
  then have hi_ne: "round_double (of_int (lo + 1) * of_int P) \<noteq> Fin (of_int x)"
    using hi_exact by simp
  show ?thesis
    unfolding digits_candidate_def Let_def L_def[symmetric] sc fl
    using lo_ne hi_ne by simp
qed

lemma digits_candidate_some:
  assumes x: "1 \<le> x" "x \<le> 2 ^ 53"
    and k: "1 \<le> k" "k \<le> decimal_length (nat x)"
    and d: "10 ^ (decimal_length (nat x) - k) dvd x"
  shows "digits_candidate (of_int x) (int (decimal_length (nat x))) k
           = Some (x div 10 ^ (decimal_length (nat x) - k))"
proof -
  define L where "L = decimal_length (nat x)"
  define P :: int where "P = 10 ^ (L - k)"
  define lo where "lo = x div P"
  have Ppos: "0 < P" by (simp add: P_def)
  have xe: "x = lo * P" using d by (simp add: lo_def P_def L_def)
  have sc: "pow10 (int L - int k) = of_int P" unfolding P_def using k by (intro pow10_nat) (simp add: L_def)
  have fl: "\<lfloor>(of_int x :: rat) / of_int P\<rfloor> = lo" unfolding lo_def by (rule floor_div_int[OF Ppos])
  have e: "(of_int lo :: rat) * of_int P = of_int x" using xe by simp
  have "\<bar>x\<bar> \<le> 2 ^ 53" using x by simp
  then have lo_ok: "round_double (of_int x) = Fin (of_int x)" by (rule round_double_int)
  have dl: "(of_int x :: rat) - of_int x < of_int (lo + 1) * of_int P - of_int x"
  proof -
    have "(of_int (lo + 1) :: rat) * of_int P - of_int x = of_int P"
      using e by (simp add: algebra_simps)
    with Ppos show ?thesis by simp
  qed
  show ?thesis
    unfolding digits_candidate_def Let_def L_def[symmetric] sc fl e P_def[symmetric] lo_def[symmetric]
    using lo_ok dl by simp
qed

lemma shortest_digits_int:
  assumes x: "1 \<le> x" "x \<le> 2 ^ 53"
    and k: "1 \<le> k" "k \<le> decimal_length (nat x)" "decimal_length (nat x) - k < fuel"
  shows "\<exists>ks. k \<le> ks \<and> ks \<le> decimal_length (nat x) \<and>
           10 ^ (decimal_length (nat x) - ks) dvd x \<and>
           (\<forall>k'. k \<le> k' \<and> k' < ks \<longrightarrow> \<not> 10 ^ (decimal_length (nat x) - k') dvd x) \<and>
           shortest_digits (of_int x) (int (decimal_length (nat x))) fuel k
             = (x div 10 ^ (decimal_length (nat x) - ks), ks)"
  using k
proof (induction fuel arbitrary: k)
  case 0
  then show ?case by simp
next
  case (Suc fuel)
  show ?case
  proof (cases "10 ^ (decimal_length (nat x) - k) dvd x")
    case True
    from digits_candidate_some[OF x Suc.prems(1,2) True] True Suc.prems show ?thesis
      by (intro exI[of _ k]) simp
  next
    case False
    have "k \<noteq> decimal_length (nat x)"
    proof
      assume "k = decimal_length (nat x)"
      with False show False by simp
    qed
    with Suc.prems have k': "1 \<le> Suc k" "Suc k \<le> decimal_length (nat x)"
      "decimal_length (nat x) - Suc k < fuel" by simp_all
    from Suc.IH[OF k'] obtain ks where ks: "Suc k \<le> ks" "ks \<le> decimal_length (nat x)"
      "10 ^ (decimal_length (nat x) - ks) dvd x"
      "\<forall>k'. Suc k \<le> k' \<and> k' < ks \<longrightarrow> \<not> 10 ^ (decimal_length (nat x) - k') dvd x"
      "shortest_digits (of_int x) (int (decimal_length (nat x))) fuel (Suc k)
             = (x div 10 ^ (decimal_length (nat x) - ks), ks)"
      by blast
    have m: "\<forall>k'. k \<le> k' \<and> k' < ks \<longrightarrow> \<not> 10 ^ (decimal_length (nat x) - k') dvd x"
    proof (intro allI impI)
      fix k' assume a: "k \<le> k' \<and> k' < ks"
      show "\<not> 10 ^ (decimal_length (nat x) - k') dvd x"
      proof (cases "k' = k")
        case True
        with False show ?thesis by simp
      next
        case False
        with a have "Suc k \<le> k' \<and> k' < ks" by simp
        with ks(4) show ?thesis by blast
      qed
    qed
    from digits_candidate_none[OF x Suc.prems(1,2) False] ks(5)
    have "shortest_digits (of_int x) (int (decimal_length (nat x))) (Suc fuel) k
             = (x div 10 ^ (decimal_length (nat x) - ks), ks)"
      by simp
    with ks(1-3) m show ?thesis by (intro exI[of _ ks]) simp
  qed
qed

lemma positive_toString_int:
  assumes x: "1 \<le> x" "x \<le> 2 ^ 53"
  shows "positive_toString (of_int x) = show_nat (nat x)"
proof -
  define L where "L = decimal_length (nat x)"
  have L: "L \<le> 16" "0 < L" unfolding L_def by (rule safe_length[OF x])+
  have n0: "floor_log10 (of_int x) + 1 = int L"
    using x by (simp add: floor_log10_def L_def)
  have "1 \<le> (1::nat)" "1 \<le> L" "L - 1 < 17" using L by simp_all
  from shortest_digits_int[OF x this[unfolded L_def], folded L_def]
  obtain ks where ks: "1 \<le> ks" "ks \<le> L" "10 ^ (L - ks) dvd x"
    "\<forall>k'. 1 \<le> k' \<and> k' < ks \<longrightarrow> \<not> 10 ^ (L - k') dvd x"
    "shortest_digits (of_int x) (int L) 17 1 = (x div 10 ^ (L - ks), ks)"
    by blast
  define S where "S = nat (x div 10 ^ (L - ks))"
  have xS: "nat x = S * 10 ^ (L - ks)"
  proof -
    from ks(3) have e: "x = (x div 10 ^ (L - ks)) * 10 ^ (L - ks)" by simp
    have p: "0 \<le> x div 10 ^ (L - ks)" using x by (simp add: pos_imp_zdiv_nonneg_iff)
    have "nat x = nat ((x div 10 ^ (L - ks)) * 10 ^ (L - ks))" using e by simp
    also have "\<dots> = nat (x div 10 ^ (L - ks)) * nat (10 ^ (L - ks))"
      by (rule nat_mult_distrib[OF p])
    also have "nat (10 ^ (L - ks)) = 10 ^ (L - ks)" by (simp add: nat_power_eq)
    finally show ?thesis unfolding S_def .
  qed
  have xpos: "0 < nat x" using x by simp
  from decimal_length_bounds[OF xpos]
  have b: "10 ^ (L - 1) \<le> nat x" "nat x < 10 ^ L" by (simp_all add: L_def)
  have Lk: "L = ks + (L - ks)" "L - 1 = (ks - 1) + (L - ks)" using ks(1,2) by simp_all
  have Sub: "S < 10 ^ ks"
  proof -
    from b(2) have "S * 10 ^ (L - ks) < 10 ^ ks * 10 ^ (L - ks)"
      unfolding xS using Lk(1) by (metis power_add)
    then show ?thesis by simp
  qed
  have Slb: "10 ^ (ks - 1) \<le> S"
  proof -
    from b(1) have "10 ^ (ks - 1) * 10 ^ (L - ks) \<le> S * 10 ^ (L - ks)"
      unfolding xS using Lk(2) by (metis power_add)
    then show ?thesis by simp
  qed
  have Spos: "0 < S" using Slb by (metis less_le_trans zero_less_numeral zero_less_power)
  have dS: "decimal_length S = ks"
    using decimal_length_eq[of "ks - 1" S] Slb Sub ks(1) by simp
  have lS: "length (show_nat S) = ks" using show_nat_length[OF Spos] dS by simp
  have nz: "S mod 10 \<noteq> 0"
  proof
    assume z: "S mod 10 = 0"
    then have "10 dvd S" by (simp add: dvd_eq_mod_eq_0)
    then obtain S' where "S = 10 * S'" by (auto elim: dvdE)
    then have S': "S = S' * 10" by simp
    show False
    proof (cases "ks = 1")
      case True
      with Sub Spos S' show False by simp
    next
      case False
      with ks(1) have k1: "1 \<le> ks - 1 \<and> ks - 1 < ks" by simp
      have "L - (ks - 1) = Suc (L - ks)" using ks(1,2) False by simp
      then have "nat x = S' * 10 ^ (L - (ks - 1))" unfolding xS S' by simp
      moreover have "x = int (nat x)" using x by simp
      ultimately have "x = int S' * 10 ^ (L - (ks - 1))" by simp
      then have "(10::int) ^ (L - (ks - 1)) dvd x" by simp
      with ks(4) k1 show False by blast
    qed
  qed
  have st: "strip_zeros (show_nat S) = show_nat S" by (rule strip_zeros_show_nat[OF nz])
  have r: "nat (int L + int ks - int ks - int ks) = L - ks" using ks(2) by simp
  have "positive_toString (of_int x) = show_nat S @ replicate (L - ks) 48"
    unfolding positive_toString_def Let_def n0 ks(5) prod.case S_def[symmetric] st lS
    using ks(2) L(1) r by (simp del: show_nat.simps)
  also have "\<dots> = show_nat (S * 10 ^ (L - ks))" by (rule show_nat_zeros[OF Spos, symmetric])
  finally show ?thesis unfolding xS .
qed

lemma Number_toString_int:
  assumes "\<bar>k\<bar> \<le> 2 ^ 53"
  shows "Number_toString (Fin (of_int k)) = show_int k"
proof -
  consider "k = 0" | "0 < k" | "k < 0" by linarith
  then show ?thesis
  proof cases
    case 1
    then show ?thesis by (simp add: Number_toString_def show_int_def str_def)
  next
    case 2
    with assms have "positive_toString (of_int k) = show_nat (nat k)"
      by (intro positive_toString_int) simp_all
    with 2 show ?thesis by (simp add: Number_toString_def show_int_def)
  next
    case 3
    with assms have "positive_toString (of_int (- k)) = show_nat (nat (- k))"
      by (intro positive_toString_int) simp_all
    with 3 show ?thesis by (simp add: Number_toString_def show_int_def str_def)
  qed
qed

lemma Number_toString_numeral:
  "numeral w \<le> (9007199254740992 :: int) \<Longrightarrow> Number_toString (Fin (numeral w)) = show_nat (numeral w)"
  "numeral w \<le> (9007199254740992 :: int) \<Longrightarrow>
     Number_toString (Fin (- numeral w)) = 45 # show_nat (numeral w)"
  "Number_toString (Fin 0) = [48]" "Number_toString (Fin 1) = [49]"
  using Number_toString_int[of "numeral w"] Number_toString_int[of "- numeral w"]
    Number_toString_int[of 0] Number_toString_int[of 1]
  by (simp_all add: show_int_def)

lemma round_double_1e21: "round_double 1000000000000000000000 = Fin 1000000000000000000000"
proof (rule round_double_pos)
  show "(0::rat) < 1000000000000000000000" by simp
  show "floor_log2 1000000000000000000000 = 69" by (simp add: floor_log2_def bit_length.simps)
  show "pow2 (max 69 (- 1022) - 52) = 131072" by (simp add: pow2_def)
  show "round_half_even (1000000000000000000000 / 131072) = 7629394531250000"
    by (simp add: round_half_even_def floor_numeral_div)
  show "of_int 7629394531250000 * (131072::rat) = 1000000000000000000000" by simp
  show "(1000000000000000000000::rat) < 2 ^ 1024" by simp
qed

lemma round_double_2e21: "round_double 2000000000000000000000 = Fin 2000000000000000000000"
proof (rule round_double_pos)
  show "(0::rat) < 2000000000000000000000" by simp
  show "floor_log2 2000000000000000000000 = 70" by (simp add: floor_log2_def bit_length.simps)
  show "pow2 (max 70 (- 1022) - 52) = 262144" by (simp add: pow2_def)
  show "round_half_even (2000000000000000000000 / 262144) = 7629394531250000"
    by (simp add: round_half_even_def floor_numeral_div)
  show "of_int 7629394531250000 * (262144::rat) = 2000000000000000000000" by simp
  show "(2000000000000000000000::rat) < 2 ^ 1024" by simp
qed

lemma Number_toString_1e21: "Number_toString (Fin 1000000000000000000000) = str ''1e+21''"
proof -
  have n: "floor_log10 1000000000000000000000 + 1 = 22"
    by (simp add: floor_log10_def decimal_length.simps)
  have c: "digits_candidate 1000000000000000000000 22 1 = Some 1"
    by (simp add: digits_candidate_def pow10_def Let_def round_double_1e21 round_double_2e21)
  have s: "shortest_digits 1000000000000000000000 22 17 1 = (1, 1)"
    using c by (simp add: numeral_eq_Suc)
  have "positive_toString 1000000000000000000000 = str ''1e+21''"
    unfolding positive_toString_def Let_def n s by (simp add: strip_zeros_def str_def)
  then show ?thesis by (simp add: Number_toString_def)
qed

lemma parseInt_not_NaN:
  "is_sign c \<Longrightarrow> ds \<noteq> [] \<Longrightarrow> \<forall>x\<in>set ds. is_digit x \<Longrightarrow> parseInt (c # ds) \<noteq> NaN"
  by (simp add: parseInt_signed round_double_not_NaN)

lemma num_add_int:
  "\<bar>a + b\<bar> \<le> 2 ^ 53 \<Longrightarrow> num_add (Fin (of_int a)) (Fin (of_int b)) = Fin (of_int (a + b))"
  using round_double_int[of "a + b"] by simp

lemma num_mul_sign:
  "\<bar>a\<bar> \<le> 2 ^ 53 \<Longrightarrow> num_mul (Fin (of_int a)) (Fin (- 1)) = Fin (of_int (- a))"
  "\<bar>a\<bar> \<le> 2 ^ 53 \<Longrightarrow> num_mul (Fin (of_int a)) (Fin 1) = Fin (of_int a)"
  using round_double_int[of "- a"] round_double_int[of a] by simp_all

subsection \<open>Closed forms of pattern tails\<close>

lemma trailing_closed: "trailing m s = (if dropWhile is_ws s = [] then Some m else None)"
  unfolding trailing_def
  by (subst greedy_star_det) auto

lemma digits_then_trailing:
  "greedy_plus is_digit (\<lambda>ds r. trailing (M ds) r) s =
     (if takeWhile is_digit s \<noteq> [] \<and> dropWhile is_ws (dropWhile is_digit s) = []
      then Some (M (takeWhile is_digit s)) else None)"
proof -
  have "\<And>a c cs. is_digit c \<Longrightarrow> trailing (M a) (c # cs) = None"
    by (simp add: trailing_closed digit_not_ws)
  then show ?thesis
    by (subst greedy_plus_det) (auto simp: trailing_closed)
qed

lemma signed_tail_closed:
  "greedy_plus is_ws (\<lambda>_ r2.
       one_of is_sign (\<lambda>sg r3.
         greedy_plus is_digit (\<lambda>ds r4. trailing (M sg ds) r4) r3) r2) r =
   (if takeWhile is_ws r = [] then None
    else case dropWhile is_ws r of
           [] \<Rightarrow> None
         | c # cs \<Rightarrow>
             if is_sign c \<and> takeWhile is_digit cs \<noteq> [] \<and> dropWhile is_ws (dropWhile is_digit cs) = []
             then Some (M [c] (takeWhile is_digit cs)) else None)"
proof -
  let ?K = "one_of is_sign (\<lambda>sg r3. greedy_plus is_digit (\<lambda>ds r4. trailing (M sg ds) r4) r3)"
  let ?K' = "\<lambda>s. case s of
        [] \<Rightarrow> None
      | c # cs \<Rightarrow>
          if is_sign c \<and> takeWhile is_digit cs \<noteq> [] \<and> dropWhile is_ws (dropWhile is_digit cs) = []
          then Some (M [c] (takeWhile is_digit cs)) else None"
  have K: "?K = ?K'"
    by (rule ext) (simp add: one_of_def digits_then_trailing split: list.splits)
  have rej: "\<And>a c cs. is_ws c \<Longrightarrow> ?K' (c # cs) = None"
    using sign_not_ws by auto
  have "greedy_plus is_ws (\<lambda>_. ?K') r =
          (if takeWhile is_ws r = [] then None else ?K' (dropWhile is_ws r))"
    by (rule greedy_plus_det) (rule rej)
  then show ?thesis unfolding K .
qed

lemma digits_then_done:
  "greedy_plus is_digit (\<lambda>ds r. Some (M ds)) s =
     (if takeWhile is_digit s = [] then None else Some (M (takeWhile is_digit s)))"
proof (cases "takeWhile is_digit s = []")
  case True
  then show ?thesis by (cases s) (auto simp: greedy_plus_def split: if_splits)
next
  case False
  then show ?thesis by (simp add: greedy_plus_first)
qed

lemma entry_tail_closed:
  "greedy_star is_ws (\<lambda>_ r2.
       one_of is_sign (\<lambda>sg r3.
         greedy_plus is_digit (\<lambda>ds r4. Some (M sg ds)) r3) r2) acc r =
   (case dropWhile is_ws r of
      [] \<Rightarrow> None
    | c # cs \<Rightarrow>
        if is_sign c \<and> takeWhile is_digit cs \<noteq> [] then Some (M [c] (takeWhile is_digit cs)) else None)"
proof -
  let ?K = "one_of is_sign (\<lambda>sg r3. greedy_plus is_digit (\<lambda>ds r4. Some (M sg ds)) r3)"
  let ?K' = "\<lambda>s. case s of
        [] \<Rightarrow> None
      | c # cs \<Rightarrow>
          if is_sign c \<and> takeWhile is_digit cs \<noteq> [] then Some (M [c] (takeWhile is_digit cs)) else None"
  have K: "?K = ?K'"
    by (rule ext) (simp add: one_of_def digits_then_done split: list.splits)
  have rej: "\<And>a c cs. is_ws c \<Longrightarrow> ?K' (c # cs) = None"
    using sign_not_ws by auto
  have "greedy_star is_ws (\<lambda>_. ?K') acc r = ?K' (dropWhile is_ws r)"
    by (rule greedy_star_det) (rule rej)
  then show ?thesis unfolding K .
qed



section \<open>The two alternatives of the message pattern\<close>

lemma greedy_opt_take: "P c \<Longrightarrow> k [c] cs = Some r \<Longrightarrow> greedy_opt P k (c # cs) = Some r"
  by (simp add: greedy_opt_def)

lemma greedy_opt_skip: "s = [] \<or> \<not> P (hd s) \<Longrightarrow> greedy_opt P k s = k [] s"
  by (cases s) (auto simp: greedy_opt_def)

lemma greedy_opt_sound:
  "greedy_opt P k s = Some r \<Longrightarrow> (\<exists>c cs. s = c # cs \<and> P c \<and> k [c] cs = Some r) \<or> k [] s = Some r"
  by (cases s) (auto simp: greedy_opt_def split: if_splits option.splits)

lemma sign_cases: "is_sign c \<longleftrightarrow> [c] = str ''+'' \<or> [c] = str ''-''"
  by (auto simp: is_sign_def str_def)

lemma amount_first_accepts:
  assumes sg: "sg = [] \<or> sg = str ''+'' \<or> sg = str ''-''"
    and ds: "ds \<noteq> []" "\<forall>c\<in>set ds. is_digit c"
    and ws: "ws \<noteq> []" "\<forall>c\<in>set ws. is_ws c"
    and lbl: "dropWhile is_ws lbl \<noteq> []" "\<forall>c\<in>set lbl. is_dot c"
  shows "amount_first (sg @ ds @ ws @ lbl) =
           Some \<lparr>g1 = Some sg, g2 = Some ds, g3 = Some (dropWhile is_ws lbl),
                 g4 = None, g5 = None, g6 = None\<rparr>"
proof -
  let ?m = "\<lambda>sg. \<lparr>g1 = Some sg, g2 = Some ds, g3 = Some (dropWhile is_ws lbl),
                 g4 = None, g5 = None, g6 = None\<rparr>"
  let ?l = "dropWhile is_ws lbl"
  let ?k4 = "\<lambda>sg ds l r4. trailing \<lparr>g1 = Some sg, g2 = Some ds, g3 = Some l,
                       g4 = None, g5 = None, g6 = None\<rparr> r4"
  let ?k3 = "\<lambda>sg ds (_::jsstring) r3. greedy_plus is_dot (?k4 sg ds) r3"
  let ?k2 = "\<lambda>sg ds r2. greedy_plus is_ws (?k3 sg ds) r2"
  let ?k1 = "\<lambda>sg r1. greedy_plus is_digit (?k2 sg) r1"
  from lbl have ldot: "\<forall>c\<in>set ?l. is_dot c" by (meson set_dropWhileD)
  from lbl(1) have hl: "\<not> is_ws (hd ?l)" by (rule hd_dropWhile)
  have s4: "greedy_plus is_dot (?k4 x ds) ?l = Some (?m x)" for x
  proof (rule greedy_plus_first)
    from ldot have t: "takeWhile is_dot ?l = ?l" by (simp add: takeWhile_eq_all_conv)
    show "takeWhile is_dot ?l \<noteq> []" unfolding t by (rule lbl(1))
    from ldot have d: "dropWhile is_dot ?l = []" by simp
    show "?k4 x ds (takeWhile is_dot ?l) (dropWhile is_dot ?l) = Some (?m x)"
      unfolding t d by (simp add: trailing_closed)
  qed
  have wl: "ws @ lbl = (ws @ takeWhile is_ws lbl) @ ?l" by simp
  have s3: "greedy_plus is_ws (?k3 x ds) (ws @ lbl) = Some (?m x)" for x
  proof (rule greedy_plus_first)
    have t: "takeWhile is_ws (ws @ lbl) = ws @ takeWhile is_ws lbl"
      using ws by (simp add: takeWhile_append2)
    have d: "dropWhile is_ws (ws @ lbl) = ?l"
      using ws by (simp add: dropWhile_append2)
    from t ws show "takeWhile is_ws (ws @ lbl) \<noteq> []" by simp
    show "?k3 x ds (takeWhile is_ws (ws @ lbl)) (dropWhile is_ws (ws @ lbl)) = Some (?m x)"
      unfolding d by (rule s4)
  qed
  from ws obtain w ws' where w: "ws = w # ws'" "is_ws w" by (cases ws) auto
  have s2: "greedy_plus is_digit (?k2 x) (ds @ ws @ lbl) = Some (?m x)" for x
  proof (rule greedy_plus_first)
    have nd: "\<not> is_digit (hd (ws @ lbl))" using w digit_not_ws by auto
    have t: "takeWhile is_digit (ds @ ws @ lbl) = ds"
      using ds nd w by (intro takeWhile_all) auto
    have d: "dropWhile is_digit (ds @ ws @ lbl) = ws @ lbl"
      using ds nd w by (intro dropWhile_all) auto
    from t ds show "takeWhile is_digit (ds @ ws @ lbl) \<noteq> []" by simp
    show "?k2 x (takeWhile is_digit (ds @ ws @ lbl)) (dropWhile is_digit (ds @ ws @ lbl)) = Some (?m x)"
      unfolding t d by (rule s3)
  qed
  from ds obtain d0 ds' where d0: "ds = d0 # ds'" "is_digit d0" by (cases ds) auto
  have "greedy_opt is_sign ?k1 (sg @ ds @ ws @ lbl) = Some (?m sg)"
  proof (cases "sg = []")
    case True
    have "\<not> is_sign d0" using d0 sign_not_digit by auto
    with d0 have "greedy_opt is_sign ?k1 (ds @ ws @ lbl) = ?k1 [] (ds @ ws @ lbl)"
      by (intro greedy_opt_skip) simp
    with True s2 show ?thesis by simp
  next
    case False
    with sg obtain c where c: "sg = [c]" "is_sign c"
      by (auto simp: str_def is_sign_def)
    have "greedy_opt is_sign ?k1 (c # ds @ ws @ lbl) = Some (?m [c])"
      by (rule greedy_opt_take) (use c s2 in auto)
    with c show ?thesis by simp
  qed
  then show ?thesis by (simp add: amount_first_def)
qed

lemma amount_first_sound:
  assumes "amount_first t = Some m"
  shows "\<exists>sg ds ws lbl w. t = sg @ ds @ ws @ lbl @ w \<and>
           (sg = [] \<or> sg = str ''+'' \<or> sg = str ''-'') \<and>
           ds \<noteq> [] \<and> (\<forall>c\<in>set ds. is_digit c) \<and>
           ws \<noteq> [] \<and> (\<forall>c\<in>set ws. is_ws c) \<and>
           lbl \<noteq> [] \<and> (\<forall>c\<in>set lbl. is_dot c) \<and>
           (\<forall>c\<in>set w. is_ws c) \<and>
           m = \<lparr>g1 = Some sg, g2 = Some ds, g3 = Some lbl, g4 = None, g5 = None, g6 = None\<rparr>"
proof -
  let ?k4 = "\<lambda>sg ds l r4. trailing \<lparr>g1 = Some sg, g2 = Some ds, g3 = Some l,
                       g4 = None, g5 = None, g6 = None\<rparr> r4"
  let ?k3 = "\<lambda>sg ds (_::jsstring) r3. greedy_plus is_dot (?k4 sg ds) r3"
  let ?k2 = "\<lambda>sg ds r2. greedy_plus is_ws (?k3 sg ds) r2"
  let ?k1 = "\<lambda>sg r1. greedy_plus is_digit (?k2 sg) r1"
  from assms have "greedy_opt is_sign ?k1 t = Some m" by (simp add: amount_first_def)
  from greedy_opt_sound[OF this]
  have "\<exists>sg r1. t = sg @ r1 \<and> (sg = [] \<or> sg = str ''+'' \<or> sg = str ''-'') \<and> ?k1 sg r1 = Some m"
  proof
    assume "\<exists>c cs. t = c # cs \<and> is_sign c \<and> ?k1 [c] cs = Some m"
    then obtain c cs where "t = [c] @ cs" "is_sign c" "?k1 [c] cs = Some m" by auto
    then show ?thesis unfolding sign_cases by blast
  next
    assume "?k1 [] t = Some m"
    then have "t = [] @ t \<and> ?k1 [] t = Some m" by simp
    then show ?thesis by blast
  qed
  then obtain sg r1 where sg: "t = sg @ r1" "sg = [] \<or> sg = str ''+'' \<or> sg = str ''-''"
      and k1: "?k1 sg r1 = Some m"
    by blast
  from greedy_plus_sound[OF k1] obtain ds r2 where
    ds: "r1 = ds @ r2" "ds \<noteq> []" "\<forall>c\<in>set ds. is_digit c" and k2: "?k2 sg ds r2 = Some m" by blast
  from greedy_plus_sound[OF k2] obtain ws r3 where
    ws: "r2 = ws @ r3" "ws \<noteq> []" "\<forall>c\<in>set ws. is_ws c" and k3: "?k3 sg ds ws r3 = Some m" by blast
  from greedy_plus_sound[OF k3] obtain lbl r4 where
    lbl: "r3 = lbl @ r4" "lbl \<noteq> []" "\<forall>c\<in>set lbl. is_dot c" and k4: "?k4 sg ds lbl r4 = Some m" by blast
  from k4 have "(\<forall>c\<in>set r4. is_ws c) \<and>
     m = \<lparr>g1 = Some sg, g2 = Some ds, g3 = Some lbl, g4 = None, g5 = None, g6 = None\<rparr>"
    by (auto simp: trailing_closed split: if_splits)
  with sg ds ws lbl show ?thesis by blast
qed



lemma label_first_closed:
  "label_first s =
     lazy_plus is_dot (\<lambda>lbl r.
       if takeWhile is_ws r = [] then None
       else case dropWhile is_ws r of
              [] \<Rightarrow> None
            | c # cs \<Rightarrow>
                if is_sign c \<and> takeWhile is_digit cs \<noteq> [] \<and> dropWhile is_ws (dropWhile is_digit cs) = []
                then Some \<lparr>g1 = None, g2 = None, g3 = None,
                           g4 = Some lbl, g5 = Some [c], g6 = Some (takeWhile is_digit cs)\<rparr>
                else None) s"
  unfolding label_first_def
  by (rule arg_cong[where f = "\<lambda>k. lazy_plus is_dot k s"], intro ext, rule signed_tail_closed)

lemma no_signed_tail:
  assumes vs: "vs \<noteq> []" "\<not> is_ws (last vs)"
    and W: "W \<noteq> []" "\<forall>c\<in>set W. is_ws c"
    and sg: "is_sign sg"
    and d: "dropWhile is_ws (vs @ W @ sg # ds) = c # cs"
  shows "dropWhile is_ws (dropWhile is_digit cs) \<noteq> []"
proof -
  from vs obtain vs' l where l: "vs = vs' @ [l]" "\<not> is_ws l"
    by (metis append_butlast_last_id)
  from dropWhile_keeps[of is_ws l vs' "W @ sg # ds"] l obtain zs where
    "dropWhile is_ws (vs @ W @ sg # ds) = zs @ l # W @ sg # ds" by auto
  with d have "c # cs = zs @ l # W @ sg # ds" by simp
  then obtain z' where z': "cs = z' @ W @ sg # ds"
    by (cases zs) auto
  from W obtain w W' where w: "W = w # W'" "is_ws w" by (cases W) auto
  then have "\<not> is_digit w" using digit_not_ws by auto
  with dropWhile_keeps[of is_digit w z' "W' @ sg # ds"] z' w obtain z'' where
    "dropWhile is_digit cs = z'' @ w # W' @ sg # ds" by auto
  then have "sg \<in> set (dropWhile is_digit cs)" by simp
  with sg sign_not_ws show ?thesis by (auto simp del: dropWhile_eq_Nil_conv simp: dropWhile_eq_Nil_conv)
qed

lemma label_first_accepts:
  assumes lbl: "lbl \<noteq> []" "\<forall>c\<in>set lbl. is_dot c" "\<not> is_ws (last lbl)"
    and W: "W \<noteq> []" "\<forall>c\<in>set W. is_ws c"
    and sg: "is_sign sg"
    and ds: "ds \<noteq> []" "\<forall>c\<in>set ds. is_digit c"
  shows "label_first (lbl @ W @ sg # ds) =
           Some \<lparr>g1 = None, g2 = None, g3 = None,
                 g4 = Some lbl, g5 = Some [sg], g6 = Some ds\<rparr>"
proof -
  let ?k = "\<lambda>lbl r.
       if takeWhile is_ws r = [] then None
       else case dropWhile is_ws r of
              [] \<Rightarrow> None
            | c # cs \<Rightarrow>
                if is_sign c \<and> takeWhile is_digit cs \<noteq> [] \<and> dropWhile is_ws (dropWhile is_digit cs) = []
                then Some \<lparr>g1 = None, g2 = None, g3 = None,
                           g4 = Some lbl, g5 = Some [c], g6 = Some (takeWhile is_digit cs)\<rparr>
                else None"
  let ?ys = "W @ sg # ds"
  from lbl obtain c0 core where c0: "lbl = c0 # core" "is_dot c0" by (cases lbl) auto
  have skip: "?k ([c0] @ us) (vs @ ?ys) = None" if "core = us @ vs" "vs \<noteq> []" for us vs
  proof -
    from that c0 lbl(3) have lv: "\<not> is_ws (last vs)" by simp
    show ?thesis
    proof (cases "dropWhile is_ws (vs @ ?ys)")
      case Nil
      then show ?thesis by (simp del: dropWhile_eq_Nil_conv)
    next
      case (Cons c cs)
      from no_signed_tail[OF that(2) lv W sg Cons] Cons show ?thesis
        by (simp del: dropWhile_eq_Nil_conv)
    qed
  qed
  have tw: "takeWhile is_ws ?ys = W" using W sg sign_not_ws by (intro takeWhile_all) auto
  have dw: "dropWhile is_ws ?ys = sg # ds" using W sg sign_not_ws by (intro dropWhile_all) auto
  have td: "takeWhile is_digit ds = ds" using ds by (simp add: takeWhile_eq_all_conv)
  have dd: "dropWhile is_digit ds = []" using ds by simp
  have hit: "?k l ?ys = Some \<lparr>g1 = None, g2 = None, g3 = None,
                 g4 = Some l, g5 = Some [sg], g6 = Some ds\<rparr>" for l
    unfolding tw dw using W sg ds by (simp add: td dd del: dropWhile_eq_Nil_conv)
  have "lazy_star is_dot ?k [c0] (core @ ?ys) = lazy_star is_dot ?k ([c0] @ core) ?ys"
    by (rule lazy_star_skip) (use c0 lbl skip in auto)
  also have "\<dots> = Some \<lparr>g1 = None, g2 = None, g3 = None,
                 g4 = Some ([c0] @ core), g5 = Some [sg], g6 = Some ds\<rparr>"
    by (rule lazy_star_hit) (rule hit)
  finally show ?thesis
    unfolding label_first_closed using c0 by (simp add: lazy_plus_def)
qed

lemma label_first_sound:
  assumes "label_first t = Some m"
  shows "\<exists>lbl ws sg ds w. t = lbl @ ws @ sg @ ds @ w \<and>
           lbl \<noteq> [] \<and> (\<forall>c\<in>set lbl. is_dot c) \<and>
           ws \<noteq> [] \<and> (\<forall>c\<in>set ws. is_ws c) \<and>
           (sg = str ''+'' \<or> sg = str ''-'') \<and>
           ds \<noteq> [] \<and> (\<forall>c\<in>set ds. is_digit c) \<and>
           (\<forall>c\<in>set w. is_ws c) \<and>
           m = \<lparr>g1 = None, g2 = None, g3 = None, g4 = Some lbl, g5 = Some sg, g6 = Some ds\<rparr>"
proof -
  from assms[unfolded label_first_closed, THEN lazy_plus_sound]
  obtain lbl r where t: "t = lbl @ r" "lbl \<noteq> []" "\<forall>c\<in>set lbl. is_dot c"
    and k: "(if takeWhile is_ws r = [] then None
       else case dropWhile is_ws r of
              [] \<Rightarrow> None
            | c # cs \<Rightarrow>
                if is_sign c \<and> takeWhile is_digit cs \<noteq> [] \<and> dropWhile is_ws (dropWhile is_digit cs) = []
                then Some \<lparr>g1 = None, g2 = None, g3 = None,
                           g4 = Some lbl, g5 = Some [c], g6 = Some (takeWhile is_digit cs)\<rparr>
                else None) = Some m"
    by blast
  from k have w1: "takeWhile is_ws r \<noteq> []" by (auto split: if_splits)
  from k obtain c cs where c: "dropWhile is_ws r = c # cs" "is_sign c" "takeWhile is_digit cs \<noteq> []"
      "dropWhile is_ws (dropWhile is_digit cs) = []"
      and m: "m = \<lparr>g1 = None, g2 = None, g3 = None,
                           g4 = Some lbl, g5 = Some [c], g6 = Some (takeWhile is_digit cs)\<rparr>"
    by (auto simp del: dropWhile_eq_Nil_conv split: if_splits list.splits)
  have "r = takeWhile is_ws r @ [c] @ takeWhile is_digit cs @ dropWhile is_digit cs"
    using c(1) by (metis append_Cons append_Nil takeWhile_dropWhile_id)
  with t have "t = lbl @ takeWhile is_ws r @ [c] @ takeWhile is_digit cs @ dropWhile is_digit cs"
    by simp
  moreover have "\<forall>x\<in>set (takeWhile is_ws r). is_ws x" by (auto dest: set_takeWhileD)
  moreover have "\<forall>x\<in>set (takeWhile is_digit cs). is_digit x" by (auto dest: set_takeWhileD)
  moreover from c(4) have "\<forall>x\<in>set (dropWhile is_digit cs). is_ws x" by simp
  moreover from c(2) have "[c] = str ''+'' \<or> [c] = str ''-''" by (simp add: sign_cases)
  ultimately show ?thesis using t w1 c(3) m by blast
qed

lemma pattern_match_trimmed:
  "t = [] \<or> \<not> is_ws (hd t) \<Longrightarrow>
   pattern_match t = (case amount_first t of Some m \<Rightarrow> Some m | None \<Rightarrow> label_first t)"
  by (cases t) (auto simp: pattern_match_def)



section \<open>What \<open>parseMessage\<close> returns\<close>

lemma trimmed_trim: "trimmed (trim t)"
  using trim_Nil_or[of t] by (auto simp: trimmed_def)

lemma rstrip_split:
  "lbl = rev (dropWhile is_ws (rev lbl)) @ rev (takeWhile is_ws (rev lbl))"
  by (metis rev_append rev_rev_ident takeWhile_dropWhile_id)

lemma amount_first_complete:
  assumes tr: "trimmed t"
    and t: "t = sg @ ds @ ws @ lbl"
    and sg: "sg = [] \<or> sg = str ''+'' \<or> sg = str ''-''"
    and ds: "ds \<noteq> []" "\<forall>c\<in>set ds. is_digit c"
    and ws: "ws \<noteq> []" "\<forall>c\<in>set ws. is_ws c"
    and lbl: "lbl \<noteq> []" "\<forall>c\<in>set lbl. is_dot c"
  shows "amount_first t =
           Some \<lparr>g1 = Some sg, g2 = Some ds, g3 = Some (dropWhile is_ws lbl),
                 g4 = None, g5 = None, g6 = None\<rparr>"
proof -
  from t lbl(1) have "last t = last lbl" by simp
  with tr t lbl(1) have "\<not> is_ws (last lbl)" by (auto simp: trimmed_def)
  with lbl(1) have "\<exists>x\<in>set lbl. \<not> is_ws x" using last_in_set by blast
  then have "dropWhile is_ws lbl \<noteq> []" by simp
  from amount_first_accepts[OF sg ds ws this lbl(2)] t show ?thesis by simp
qed

lemma amount_first_trimmed_sound:
  assumes tr: "trimmed t" and m: "amount_first t = Some m"
  shows "\<exists>sg ds ws lbl. t = sg @ ds @ ws @ lbl \<and>
           (sg = [] \<or> sg = str ''+'' \<or> sg = str ''-'') \<and>
           ds \<noteq> [] \<and> (\<forall>c\<in>set ds. is_digit c) \<and>
           ws \<noteq> [] \<and> (\<forall>c\<in>set ws. is_ws c) \<and>
           lbl \<noteq> [] \<and> (\<forall>c\<in>set lbl. is_dot c) \<and>
           m = \<lparr>g1 = Some sg, g2 = Some ds, g3 = Some lbl, g4 = None, g5 = None, g6 = None\<rparr>"
proof -
  from amount_first_sound[OF m] obtain sg ds ws lbl w where
    d: "t = sg @ ds @ ws @ lbl @ w"
      "sg = [] \<or> sg = str ''+'' \<or> sg = str ''-''"
      "ds \<noteq> []" "\<forall>c\<in>set ds. is_digit c"
      "ws \<noteq> []" "\<forall>c\<in>set ws. is_ws c"
      "lbl \<noteq> []" "\<forall>c\<in>set lbl. is_dot c"
      "\<forall>c\<in>set w. is_ws c"
      "m = \<lparr>g1 = Some sg, g2 = Some ds, g3 = Some lbl, g4 = None, g5 = None, g6 = None\<rparr>"
    by blast
  have "w = []"
  proof (rule ccontr)
    assume "w \<noteq> []"
    with d(1) have "last t = last w" by simp
    with \<open>w \<noteq> []\<close> d(9) have "is_ws (last t)" by simp
    with tr d(1,3) show False by (auto simp: trimmed_def)
  qed
  with d show ?thesis by auto
qed

lemma label_first_complete:
  assumes tr: "trimmed t"
    and t: "t = lbl @ ws @ sg @ ds"
    and lbl: "lbl \<noteq> []" "\<forall>c\<in>set lbl. is_dot c"
    and ws: "ws \<noteq> []" "\<forall>c\<in>set ws. is_ws c"
    and sg: "sg = str ''+'' \<or> sg = str ''-''"
    and ds: "ds \<noteq> []" "\<forall>c\<in>set ds. is_digit c"
  shows "\<exists>core. trim core = trim lbl \<and> label_first t =
           Some \<lparr>g1 = None, g2 = None, g3 = None,
                 g4 = Some core, g5 = Some sg, g6 = Some ds\<rparr>"
proof -
  let ?core = "rev (dropWhile is_ws (rev lbl))"
  let ?tw = "rev (takeWhile is_ws (rev lbl))"
  from sg obtain c where c: "sg = [c]" "is_sign c" by (auto simp: str_def is_sign_def)
  from t lbl(1) have "hd t = hd lbl" by simp
  with tr t lbl(1) have hl: "\<not> is_ws (hd lbl)" by (auto simp: trimmed_def)
  have split: "lbl = ?core @ ?tw" by (rule rstrip_split)
  have tws: "\<forall>x\<in>set ?tw. is_ws x" by (auto dest: set_takeWhileD)
  have "\<exists>x\<in>set (rev lbl). \<not> is_ws x" using hl lbl(1) hd_in_set by fastforce
  then have dne: "dropWhile is_ws (rev lbl) \<noteq> []" by simp
  then have cne: "?core \<noteq> []" by simp
  have "last ?core = hd (dropWhile is_ws (rev lbl))" using dne by (simp add: last_rev)
  with hd_dropWhile[OF dne] have lc: "\<not> is_ws (last ?core)" by simp
  have cdot: "\<forall>x\<in>set ?core. is_dot x" using lbl(2) by (auto dest: set_dropWhileD)
  have W: "?tw @ ws \<noteq> []" "\<forall>x\<in>set (?tw @ ws). is_ws x" using ws tws by auto
  have "label_first (?core @ (?tw @ ws) @ c # ds) =
          Some \<lparr>g1 = None, g2 = None, g3 = None, g4 = Some ?core, g5 = Some [c], g6 = Some ds\<rparr>"
    by (rule label_first_accepts[OF cne cdot lc W c(2) ds])
  moreover have "?core @ (?tw @ ws) @ c # ds = t"
    using t c(1) split by (metis append.assoc append_Cons append_Nil)
  moreover have "trim ?core = trim lbl"
    using trim_append_ws[OF tws, of ?core] split by simp
  ultimately show ?thesis using c(1) by auto
qed

lemma label_first_trimmed_sound:
  assumes tr: "trimmed t" and m: "label_first t = Some m"
  shows "\<exists>lbl ws sg ds. t = lbl @ ws @ sg @ ds \<and>
           lbl \<noteq> [] \<and> (\<forall>c\<in>set lbl. is_dot c) \<and>
           ws \<noteq> [] \<and> (\<forall>c\<in>set ws. is_ws c) \<and>
           (sg = str ''+'' \<or> sg = str ''-'') \<and>
           ds \<noteq> [] \<and> (\<forall>c\<in>set ds. is_digit c) \<and>
           m = \<lparr>g1 = None, g2 = None, g3 = None, g4 = Some lbl, g5 = Some sg, g6 = Some ds\<rparr>"
proof -
  from label_first_sound[OF m] obtain lbl ws sg ds w where
    d: "t = lbl @ ws @ sg @ ds @ w"
      "lbl \<noteq> []" "\<forall>c\<in>set lbl. is_dot c"
      "ws \<noteq> []" "\<forall>c\<in>set ws. is_ws c"
      "sg = str ''+'' \<or> sg = str ''-''"
      "ds \<noteq> []" "\<forall>c\<in>set ds. is_digit c"
      "\<forall>c\<in>set w. is_ws c"
      "m = \<lparr>g1 = None, g2 = None, g3 = None, g4 = Some lbl, g5 = Some sg, g6 = Some ds\<rparr>"
    by blast
  have "w = []"
  proof (rule ccontr)
    assume "w \<noteq> []"
    with d(1) have "last t = last w" by simp
    with \<open>w \<noteq> []\<close> d(9) have "is_ws (last t)" by simp
    with tr d(1,2) show False by (auto simp: trimmed_def)
  qed
  with d show ?thesis by auto
qed

lemma amount_first_iff: "trimmed t \<Longrightarrow> amount_first t \<noteq> None \<longleftrightarrow> amount_first_form t"
proof
  assume tr: "trimmed t" and "amount_first t \<noteq> None"
  then obtain m where "amount_first t = Some m" by auto
  from amount_first_trimmed_sound[OF tr this] show "amount_first_form t"
    unfolding amount_first_form_def by blast
next
  assume tr: "trimmed t" and "amount_first_form t"
  then obtain sg ds ws lbl where "t = sg @ ds @ ws @ lbl"
        "sg = [] \<or> sg = str ''+'' \<or> sg = str ''-''"
        "ds \<noteq> []" "\<forall>c\<in>set ds. is_digit c" "ws \<noteq> []" "\<forall>c\<in>set ws. is_ws c"
        "lbl \<noteq> []" "\<forall>c\<in>set lbl. is_dot c"
    unfolding amount_first_form_def by blast
  from amount_first_complete[OF tr this] show "amount_first t \<noteq> None" by simp
qed

lemma label_first_iff: "trimmed t \<Longrightarrow> label_first t \<noteq> None \<longleftrightarrow> label_first_form t"
proof
  assume tr: "trimmed t" and "label_first t \<noteq> None"
  then obtain m where "label_first t = Some m" by auto
  from label_first_trimmed_sound[OF tr this] show "label_first_form t"
    unfolding label_first_form_def by blast
next
  assume tr: "trimmed t" and "label_first_form t"
  then obtain lbl ws sg ds where "t = lbl @ ws @ sg @ ds"
        "lbl \<noteq> []" "\<forall>c\<in>set lbl. is_dot c" "ws \<noteq> []" "\<forall>c\<in>set ws. is_ws c"
        "sg = str ''+'' \<or> sg = str ''-''" "ds \<noteq> []" "\<forall>c\<in>set ds. is_digit c"
    unfolding label_first_form_def by blast
  from label_first_complete[OF tr this] show "label_first t \<noteq> None" by auto
qed

lemma pattern_match_trim:
  "pattern_match (trim t) =
     (case amount_first (trim t) of Some m \<Rightarrow> Some m | None \<Rightarrow> label_first (trim t))"
  using trim_Nil_or[of t] by (intro pattern_match_trimmed) auto

lemma str_minus_ne: "str ''+'' \<noteq> str ''-''" "str ''-'' \<noteq> []" "str ''+'' \<noteq> []"
  by (simp_all add: str_def)

lemma parseMessage_amount_first:
  assumes t: "trim t = sg @ ds @ ws @ lbl"
    and sg: "sg = [] \<or> sg = str ''+'' \<or> sg = str ''-''"
    and ds: "ds \<noteq> []" "\<forall>c\<in>set ds. is_digit c"
    and ws: "ws \<noteq> []" "\<forall>c\<in>set ws. is_ws c"
    and lbl: "lbl \<noteq> []" "\<forall>c\<in>set lbl. is_dot c"
  shows "parseMessage t =
           Inr (Some \<lparr>label = trim lbl,
                      sign = (if sg = str ''-'' then Negative else Positive),
                      amount = round_double (of_int (decimal ds))\<rparr>)"
proof -
  have "amount_first (trim t) =
           Some \<lparr>g1 = Some sg, g2 = Some ds, g3 = Some (dropWhile is_ws lbl),
                 g4 = None, g5 = None, g6 = None\<rparr>"
    by (rule amount_first_complete[OF trimmed_trim t sg ds ws lbl])
  then have "pattern_match (trim t) =
           Some \<lparr>g1 = Some sg, g2 = Some ds, g3 = Some (dropWhile is_ws lbl),
                 g4 = None, g5 = None, g6 = None\<rparr>"
    by (simp add: pattern_match_trim)
  then show ?thesis
    using sg by (auto simp: parseMessage_def parseInt_capture_def parseInt_digits[OF ds]
        trim_dropWhile str_minus_ne)
qed

lemma parseMessage_label_first:
  assumes t: "trim t = lbl @ ws @ sg @ ds"
    and lbl: "lbl \<noteq> []" "\<forall>c\<in>set lbl. is_dot c"
    and ws: "ws \<noteq> []" "\<forall>c\<in>set ws. is_ws c"
    and sg: "sg = str ''+'' \<or> sg = str ''-''"
    and ds: "ds \<noteq> []" "\<forall>c\<in>set ds. is_digit c"
    and naf: "\<not> amount_first_form (trim t)"
  shows "parseMessage t =
           Inr (Some \<lparr>label = trim lbl,
                      sign = (if sg = str ''+'' then Positive else Negative),
                      amount = round_double (of_int (decimal ds))\<rparr>)"
proof -
  from naf have "amount_first (trim t) = None"
    using amount_first_iff[OF trimmed_trim, of t] by simp
  moreover from label_first_complete[OF trimmed_trim t lbl ws sg ds]
  obtain core where "trim core = trim lbl"
    "label_first (trim t) = Some \<lparr>g1 = None, g2 = None, g3 = None,
                 g4 = Some core, g5 = Some sg, g6 = Some ds\<rparr>" by blast
  ultimately show ?thesis
    by (auto simp: parseMessage_def pattern_match_trim parseInt_capture_def parseInt_digits[OF ds])
qed

lemma parseMessage_cases:
  "parseMessage t = Inr None \<and> \<not> amount_first_form (trim t) \<and> \<not> label_first_form (trim t)
 \<or> (\<exists>sg ds ws lbl. trim t = sg @ ds @ ws @ lbl \<and>
        (sg = [] \<or> sg = str ''+'' \<or> sg = str ''-'') \<and>
        ds \<noteq> [] \<and> (\<forall>c\<in>set ds. is_digit c) \<and>
        ws \<noteq> [] \<and> (\<forall>c\<in>set ws. is_ws c) \<and>
        lbl \<noteq> [] \<and> (\<forall>c\<in>set lbl. is_dot c) \<and>
        parseMessage t = Inr (Some \<lparr>label = trim lbl,
                      sign = (if sg = str ''-'' then Negative else Positive),
                      amount = round_double (of_int (decimal ds))\<rparr>))
 \<or> (\<exists>lbl ws sg ds. trim t = lbl @ ws @ sg @ ds \<and>
        lbl \<noteq> [] \<and> (\<forall>c\<in>set lbl. is_dot c) \<and>
        ws \<noteq> [] \<and> (\<forall>c\<in>set ws. is_ws c) \<and>
        (sg = str ''+'' \<or> sg = str ''-'') \<and>
        ds \<noteq> [] \<and> (\<forall>c\<in>set ds. is_digit c) \<and>
        \<not> amount_first_form (trim t) \<and>
        parseMessage t = Inr (Some \<lparr>label = trim lbl,
                      sign = (if sg = str ''+'' then Positive else Negative),
                      amount = round_double (of_int (decimal ds))\<rparr>))"
proof (cases "amount_first_form (trim t)")
  case True
  then obtain sg ds ws lbl where d: "trim t = sg @ ds @ ws @ lbl"
        "sg = [] \<or> sg = str ''+'' \<or> sg = str ''-''"
        "ds \<noteq> []" "\<forall>c\<in>set ds. is_digit c" "ws \<noteq> []" "\<forall>c\<in>set ws. is_ws c"
        "lbl \<noteq> []" "\<forall>c\<in>set lbl. is_dot c"
    unfolding amount_first_form_def by blast
  from parseMessage_amount_first[OF d] d show ?thesis by blast
next
  case naf: False
  show ?thesis
  proof (cases "label_first_form (trim t)")
    case True
    then obtain lbl ws sg ds where d: "trim t = lbl @ ws @ sg @ ds"
        "lbl \<noteq> []" "\<forall>c\<in>set lbl. is_dot c" "ws \<noteq> []" "\<forall>c\<in>set ws. is_ws c"
        "sg = str ''+'' \<or> sg = str ''-''" "ds \<noteq> []" "\<forall>c\<in>set ds. is_digit c"
      unfolding label_first_form_def by blast
    from parseMessage_label_first[OF d naf] d naf show ?thesis by blast
  next
    case False
    with naf have "amount_first (trim t) = None" "label_first (trim t) = None"
      using amount_first_iff[OF trimmed_trim, of t] label_first_iff[OF trimmed_trim, of t] by auto
    then have "parseMessage t = Inr None"
      by (simp add: parseMessage_def pattern_match_trim)
    with naf False show ?thesis by simp
  qed
qed



section \<open>The entry pattern of the in-memory bot\<close>

lemma entry_pattern_at_closed:
  "entry_pattern_at s =
     lazy_plus is_dot (\<lambda>d r.
       case dropWhile is_ws r of
         [] \<Rightarrow> None
       | c # cs \<Rightarrow>
           if is_sign c \<and> takeWhile is_digit cs \<noteq> []
           then Some \<lparr>m1 = Some d, m2 = Some ([c] @ takeWhile is_digit cs)\<rparr> else None) s"
  unfolding entry_pattern_at_def
  by (rule arg_cong[where f = "\<lambda>k. lazy_plus is_dot k s"], intro ext, rule entry_tail_closed)

lemma entry_pattern_sound:
  assumes "entry_pattern line = Some m"
  shows "\<exists>pre d w c ds rest. line = pre @ d @ w @ c # ds @ rest \<and>
           d \<noteq> [] \<and> (\<forall>x\<in>set d. is_dot x) \<and> (\<forall>x\<in>set w. is_ws x) \<and> is_sign c \<and>
           ds \<noteq> [] \<and> (\<forall>x\<in>set ds. is_digit x) \<and>
           m = \<lparr>m1 = Some d, m2 = Some (c # ds)\<rparr>"
proof -
  from assms obtain pre s where s: "line = pre @ s" "entry_pattern_at s = Some m"
    unfolding entry_pattern_def by (blast dest: search_sound)
  from s(2)[unfolded entry_pattern_at_closed, THEN lazy_plus_sound]
  obtain d r where d: "s = d @ r" "d \<noteq> []" "\<forall>x\<in>set d. is_dot x"
    and k: "(case dropWhile is_ws r of
         [] \<Rightarrow> None
       | c # cs \<Rightarrow>
           if is_sign c \<and> takeWhile is_digit cs \<noteq> []
           then Some \<lparr>m1 = Some d, m2 = Some ([c] @ takeWhile is_digit cs)\<rparr> else None) = Some m"
    by blast
  from k obtain c cs where c: "dropWhile is_ws r = c # cs" "is_sign c" "takeWhile is_digit cs \<noteq> []"
    and m: "m = \<lparr>m1 = Some d, m2 = Some (c # takeWhile is_digit cs)\<rparr>"
    by (auto split: list.splits if_splits)
  have "r = takeWhile is_ws r @ c # takeWhile is_digit cs @ dropWhile is_digit cs"
    using c(1) by (metis takeWhile_dropWhile_id)
  with s(1) d(1) have "line = pre @ d @ takeWhile is_ws r @ c # takeWhile is_digit cs @ dropWhile is_digit cs"
    by simp
  moreover have "\<forall>x\<in>set (takeWhile is_ws r). is_ws x" by (auto dest: set_takeWhileD)
  moreover have "\<forall>x\<in>set (takeWhile is_digit cs). is_digit x" by (auto dest: set_takeWhileD)
  ultimately show ?thesis using d c m by blast
qed

lemma entry_pattern_ok:
  assumes "entry_pattern line = Some m"
  shows "\<exists>d c ds. m1 m = Some d \<and> m2 m = Some (c # ds) \<and> is_sign c \<and> ds \<noteq> [] \<and>
           (\<forall>x\<in>set ds. is_digit x)"
proof -
  from entry_pattern_sound[OF assms] obtain d c ds where
    "is_sign c" "ds \<noteq> []" "\<forall>x\<in>set ds. is_digit x" "m = \<lparr>m1 = Some d, m2 = Some (c # ds)\<rparr>"
    by blast
  then show ?thesis by simp
qed

lemma parse_lines_entries:
  "parse_lines currentDate es ls = Inr (es @ concat (map (line_entries currentDate) ls))"
proof (induction ls arbitrary: es)
  case Nil
  then show ?case by simp
next
  case (Cons l ls)
  show ?case
  proof (cases "entry_pattern l")
    case None
    with Cons show ?thesis by (simp add: line_entries_def)
  next
    case (Some m)
    from entry_pattern_ok[OF Some] obtain d where "m1 m = Some d" by blast
    with Some Cons show ?thesis by (simp add: line_entries_def)
  qed
qed

lemma trim_Nil_all_ws: "trim s = [] \<Longrightarrow> \<forall>c\<in>set s. is_ws c"
proof -
  assume "trim s = []"
  then have "\<forall>c\<in>set (dropWhile is_ws s). is_ws c" by (simp add: trim_def)
  then have "dropWhile is_ws s = []"
    by (metis hd_dropWhile hd_in_set)
  then show ?thesis by simp
qed

lemma blank_line_no_match: "trim line = [] \<Longrightarrow> entry_pattern line = None"
proof (rule ccontr)
  assume b: "trim line = []" and "entry_pattern line \<noteq> None"
  then obtain m where "entry_pattern line = Some m" by auto
  from entry_pattern_sound[OF this] obtain pre d w c ds rest where
    "line = pre @ d @ w @ c # ds @ rest" "is_sign c" by blast
  then have "c \<in> set line" "is_sign c" by simp_all
  with trim_Nil_all_ws[OF b] sign_not_ws show False by blast
qed

lemma blank_lines_skipped:
  "concat (map (line_entries d) (filter (\<lambda>line. trim line \<noteq> []) ls)) = concat (map (line_entries d) ls)"
  by (induction ls) (auto simp: line_entries_def blank_line_no_match)

lemma parseFinancialEntries_lines:
  "parseFinancialEntries currentDate text =
     Inr (concat (map (line_entries currentDate) (split_on 10 text)))"
  by (simp add: parseFinancialEntries_def parse_lines_entries blank_lines_skipped)

lemma split_on_single: "sep \<notin> set s \<Longrightarrow> split_on sep s = [s]"
  by (induction s) auto

lemma split_on_join:
  "\<forall>l\<in>set ls. sep \<notin> set l \<Longrightarrow> ls \<noteq> [] \<Longrightarrow> split_on sep (join [sep] ls) = ls"
proof (induction ls)
  case Nil
  then show ?case by simp
next
  case (Cons l ls)
  show ?case
  proof (cases ls)
    case Nil
    with Cons.prems show ?thesis by (simp add: split_on_single)
  next
    case (Cons q qs)
    with Cons.IH Cons.prems have ih: "split_on sep (join [sep] (q # qs)) = q # qs" by simp
    have "split_on sep (l' @ sep # r) = l' # split_on sep r" if "sep \<notin> set l'" for l' r
      using that by (induction l') (auto split: list.splits)
    with ih Cons.prems Cons show ?thesis by simp
  qed
qed

lemma has_signed_number_intro:
  "a \<noteq> [] \<Longrightarrow> is_sign c \<Longrightarrow> is_digit x \<Longrightarrow> has_signed_number (a @ c # x # b)"
proof (induction a)
  case Nil
  then show ?case by simp
next
  case (Cons y ys)
  show ?case
  proof (cases ys)
    case Nil
    with Cons.prems show ?thesis by simp
  next
    case (Cons z zs)
    with Cons.IH Cons.prems have ih: "has_signed_number (z # zs @ c # x # b)" by simp
    obtain w ws where w: "zs @ c # x # b = w # ws" by (cases "zs @ c # x # b") auto
    with ih Cons show ?thesis by simp
  qed
qed

lemma no_match_without_signed_number:
  "\<not> has_signed_number line \<Longrightarrow> entry_pattern line = None"
proof (rule ccontr)
  assume n: "\<not> has_signed_number line" and "entry_pattern line \<noteq> None"
  then obtain m where "entry_pattern line = Some m" by auto
  from entry_pattern_sound[OF this] obtain pre d w c ds rest where
    l: "line = pre @ d @ w @ c # ds @ rest" "d \<noteq> []" "is_sign c" "ds \<noteq> []" "\<forall>x\<in>set ds. is_digit x"
    by blast
  then obtain x ds' where x: "ds = x # ds'" "is_digit x" by (cases ds) auto
  from l(2) have "pre @ d @ w \<noteq> []" by simp
  from has_signed_number_intro[OF this l(3) x(2), of "ds' @ rest"] l(1) x(1)
  have "has_signed_number line" by simp
  with n show False by simp
qed

lemma entry_pattern_label_first:
  assumes lbl: "\<forall>c\<in>set lbl. is_dot c" "\<not> has_signed_number lbl" "\<exists>c\<in>set lbl. \<not> is_ws c"
    and ws: "\<forall>c\<in>set ws. is_ws c"
    and sg: "is_sign sg"
    and ds: "ds \<noteq> []" "\<forall>c\<in>set ds. is_digit c"
    and rest: "rest = [] \<or> \<not> is_digit (hd rest)"
  shows "\<exists>core. trim core = trim lbl \<and>
           entry_pattern (lbl @ ws @ sg # ds @ rest) = Some \<lparr>m1 = Some core, m2 = Some (sg # ds)\<rparr>"
proof -
  let ?core = "rev (dropWhile is_ws (rev lbl))"
  let ?tw = "rev (takeWhile is_ws (rev lbl))"
  let ?ys = "(?tw @ ws) @ sg # ds @ rest"
  let ?k = "\<lambda>d r.
       case dropWhile is_ws r of
         [] \<Rightarrow> None
       | c # cs \<Rightarrow>
           if is_sign c \<and> takeWhile is_digit cs \<noteq> []
           then Some \<lparr>m1 = Some d, m2 = Some ([c] @ takeWhile is_digit cs)\<rparr> else None"
  have split: "lbl = ?core @ ?tw" by (rule rstrip_split)
  have tws: "\<forall>x\<in>set ?tw. is_ws x" by (auto dest: set_takeWhileD)
  from lbl(3) have "\<exists>x\<in>set (rev lbl). \<not> is_ws x" by simp
  then have dne: "dropWhile is_ws (rev lbl) \<noteq> []" by simp
  then have cne: "?core \<noteq> []" by simp
  have "last ?core = hd (dropWhile is_ws (rev lbl))" using dne by (simp add: last_rev)
  with hd_dropWhile[OF dne] have lc: "\<not> is_ws (last ?core)" by simp
  have csub: "set ?core \<subseteq> set lbl" by (auto dest: set_dropWhileD)
  from cne obtain c0 core' where c0: "?core = c0 # core'" by (cases ?core) auto
  with csub lbl(1) have dot0: "is_dot c0" and dots: "\<forall>x\<in>set core'. is_dot x"
    by (auto simp del: set_rev)
  have hy: "?ys \<noteq> []" "\<not> is_digit (hd ?ys)"
  proof -
    show "?ys \<noteq> []" by simp
    have "hd ?ys = sg \<or> is_ws (hd ?ys)"
    proof (cases "?tw @ ws")
      case Nil
      then show ?thesis by simp
    next
      case (Cons y ys')
      then have "y \<in> set (?tw @ ws)" by simp
      with tws ws have "is_ws y" by auto
      with Cons show ?thesis by simp
    qed
    then show "\<not> is_digit (hd ?ys)"
    proof
      assume "hd ?ys = sg"
      with sg sign_not_digit[of sg] show ?thesis by simp
    next
      assume "is_ws (hd ?ys)"
      with digit_not_ws[of "hd ?ys"] show ?thesis by blast
    qed
  qed
  have skip: "?k ([c0] @ us) (vs @ ?ys) = None" if "core' = us @ vs" "vs \<noteq> []" for us vs
  proof -
    from that c0 lc have lv: "\<not> is_ws (last vs)" by (simp del: dropWhile_eq_Nil_conv)
    with that(2) have ex: "last vs \<in> set vs" "\<not> is_ws (last vs)" by simp_all
    then have d1: "dropWhile is_ws (vs @ ?ys) = dropWhile is_ws vs @ ?ys"
      by (rule dropWhile_append1)
    from ex have dvn: "dropWhile is_ws vs \<noteq> []" by auto
    then obtain c cs where ccs: "dropWhile is_ws vs = c # cs" by (cases "dropWhile is_ws vs") auto
    have vsplit: "vs = takeWhile is_ws vs @ c # cs"
      using ccs by (metis takeWhile_dropWhile_id)
    show ?thesis
    proof (cases "is_sign c")
      case False
      with d1 ccs show ?thesis by simp
    next
      case True
      have nd: "takeWhile is_digit (cs @ ?ys) = []"
      proof (cases cs)
        case Nil
        with hy show ?thesis by (cases ?ys) simp_all
      next
        case (Cons x cs')
        have "\<not> is_digit x"
        proof
          assume x: "is_digit x"
          have "lbl = (c0 # us @ takeWhile is_ws vs) @ c # x # (cs' @ ?tw)"
            using split c0 that(1) vsplit Cons by (metis append.assoc append_Cons)
          moreover have "has_signed_number ((c0 # us @ takeWhile is_ws vs) @ c # x # (cs' @ ?tw))"
            by (rule has_signed_number_intro[OF _ True x]) simp
          ultimately show False using lbl(2) by simp
        qed
        with Cons show ?thesis by simp
      qed
      from d1 ccs have "dropWhile is_ws (vs @ ?ys) = c # (cs @ ?ys)" by simp
      with nd show ?thesis by simp
    qed
  qed
  have dw: "dropWhile is_ws ?ys = sg # ds @ rest"
    using tws ws sg sign_not_ws by (intro dropWhile_all) auto
  have td: "takeWhile is_digit (ds @ rest) = ds"
    using ds rest by (intro takeWhile_all) auto
  have hit: "?k l ?ys = Some \<lparr>m1 = Some l, m2 = Some (sg # ds)\<rparr>" for l
    unfolding dw using sg ds by (simp add: td)
  have "lazy_star is_dot ?k [c0] (core' @ ?ys) = lazy_star is_dot ?k ([c0] @ core') ?ys"
    by (rule lazy_star_skip) (use dots skip in auto)
  also have "\<dots> = Some \<lparr>m1 = Some ([c0] @ core'), m2 = Some (sg # ds)\<rparr>"
    by (rule lazy_star_hit) (rule hit)
  finally have "entry_pattern_at (?core @ ?ys) = Some \<lparr>m1 = Some ?core, m2 = Some (sg # ds)\<rparr>"
    unfolding entry_pattern_at_closed using c0 dot0 by (simp add: lazy_plus_def)
  then have at: "search entry_pattern_at (?core @ ?ys) = Some \<lparr>m1 = Some ?core, m2 = Some (sg # ds)\<rparr>"
    by (rule search_hit)
  have e: "?core @ ?ys = lbl @ ws @ sg # ds @ rest"
    using split by (metis append.assoc)
  have "entry_pattern (lbl @ ws @ sg # ds @ rest) = Some \<lparr>m1 = Some ?core, m2 = Some (sg # ds)\<rparr>"
    using at unfolding entry_pattern_def e .
  moreover have "trim ?core = trim lbl"
    using trim_append_ws[OF tws, of ?core] split by simp
  ultimately show ?thesis by blast
qed

lemma line_entries_label_first:
  assumes lbl: "\<forall>c\<in>set lbl. is_dot c" "\<not> has_signed_number lbl" "\<exists>c\<in>set lbl. \<not> is_ws c"
    and ws: "\<forall>c\<in>set ws. is_ws c"
    and sg: "is_sign sg"
    and ds: "ds \<noteq> []" "\<forall>c\<in>set ds. is_digit c"
    and rest: "rest = [] \<or> \<not> is_digit (hd rest)"
  shows "line_entries d (lbl @ ws @ sg # ds @ rest) =
           [\<lparr>description = trim lbl,
             entry_amount = round_double (of_int (if sg = 45 then - decimal ds else decimal ds)),
             date = d\<rparr>]"
proof -
  from entry_pattern_label_first[OF assms] obtain core where
    "trim core = trim lbl"
    "entry_pattern (lbl @ ws @ sg # ds @ rest) = Some \<lparr>m1 = Some core, m2 = Some (sg # ds)\<rparr>"
    by blast
  then show ?thesis
    using parseInt_signed[OF sg ds] by (simp add: line_entries_def parseInt_capture_def)
qed

lemma text_handler_appends:
  assumes "from_id c = Some u" "u \<noteq> 0" "message_text c = Some text" "take 1 text \<noteq> str ''/''"
    and "userSessions st u = Some s" "selected s = Some cur"
  shows "entries_of (snd (text_handler d c st)) cur =
           entries_of st cur @ concat (map (line_entries d) (split_on 10 text))"
    and "m \<noteq> cur \<Longrightarrow> receipts (snd (text_handler d c st)) m = receipts st m"
  using assms
  by (auto simp: text_handler_def getUserSession_def parseFinancialEntries_lines Let_def
      addEntriesToReceipt_def getReceipt_def entries_of_def split: option.splits)

section \<open>Balance\<close>

lemma foldl_amounts:
  "foldl (\<lambda>total x. num_add total (g x)) a xs = foldl num_add a (map g xs)"
  by (induction xs arbitrary: a) simp_all

lemma total_is_fold:
  "calculateReceiptTotal st n = foldl num_add (Fin 0) (map entry_amount (entries_of st n))"
  by (simp add: calculateReceiptTotal_def entries_of_def foldl_amounts[of entry_amount]
      split: option.splits)

lemma entries_of_apply_op: "entries_of (apply_op st op) n = live_step n (entries_of st n) op"
  by (cases op)
    (auto simp: entries_of_def addEntriesToReceipt_def getReceipt_def clear_entries_def
      delete_receipt_def split: option.splits)

lemma entries_of_run:
  "entries_of (foldl apply_op st ops) n = foldl (live_step n) (entries_of st n) ops"
  by (induction ops arbitrary: st) (simp_all add: entries_of_apply_op)

lemma clear_command_state:
  "from_id c = Some u \<Longrightarrow> u \<noteq> 0 \<Longrightarrow> userSessions st u = Some s \<Longrightarrow> selected s = Some n \<Longrightarrow>
   snd (clear_command c st) = clear_entries n st"
  by (simp add: clear_command_def getUserSession_def clear_entries_def split: option.splits)

lemma delete_command_receipts:
  "command_args c \<noteq> [] \<Longrightarrow> receipts st (join (str ''_'') (command_args c)) \<noteq> None \<Longrightarrow>
   receipts (snd (delete_command c st))
     = receipts (delete_receipt (join (str ''_'') (command_args c)) st)"
  by (auto simp: delete_command_def delete_receipt_def getUserSession_def Let_def
      split: option.splits)

lemma foldl_safe:
  "safe_sums a ks \<Longrightarrow> foldl num_add (Fin (of_int a)) (int_amounts ks) = Fin (of_int (a + sum_list ks))"
proof (induction ks arbitrary: a)
  case Nil
  then show ?case by (simp add: int_amounts_def)
next
  case (Cons k ks)
  from Cons.prems have s: "safe_sums (a + k) ks" by simp
  then have "\<bar>a + k\<bar> \<le> 2 ^ 53" by (cases ks) simp_all
  then have "num_add (Fin (of_int a)) (Fin (of_int k)) = Fin (of_int (a + k))"
    by (rule num_add_int)
  with Cons.IH[OF s] show ?case by (simp add: int_amounts_def add.assoc)
qed

lemma foldl_safe0:
  "safe_sums 0 ks \<Longrightarrow> foldl num_add (Fin 0) (int_amounts ks) = Fin (of_int (sum_list ks))"
  using foldl_safe[of 0 ks] by simp

lemma balance_is_fold:
  "selectAccountById d i \<noteq> None \<Longrightarrow> \<not> blank i \<Longrightarrow>
   getAccountBalance d i = Inr (foldl num_add (Fin 0) (map t_amount (selectTransactionsByAccount d i)))"
  by (auto simp: getAccountBalance_def getTransactionInAccount_def foldl_amounts[of t_amount])

lemma createTransaction_appends:
  "createTransaction accepts new_id p d = (Inr row, d') \<Longrightarrow>
   selectTransactionsByAccount d' (p_accountId p) = selectTransactionsByAccount d (p_accountId p) @ [row]
   \<and> t_amount row = p_amount p \<and> t_label row = trim (p_label p) \<and> Accounts d' = Accounts d
   \<and> selectAccountById d (p_accountId p) \<noteq> None \<and> \<not> blank (p_accountId p)"
  by (auto simp: createTransaction_def selectTransactionsByAccount_def Let_def
      split: if_splits option.splits)

lemma createTransaction_balance:
  assumes "createTransaction accepts new_id p d = (Inr row, d')"
  shows "\<exists>b. getAccountBalance d (p_accountId p) = Inr b \<and>
           getAccountBalance d' (p_accountId p) = Inr (num_add b (p_amount p))"
proof -
  note a = createTransaction_appends[OF assms]
  from a have e: "selectAccountById d (p_accountId p) \<noteq> None" "\<not> blank (p_accountId p)" by simp_all
  from a have "selectAccountById d' (p_accountId p) = selectAccountById d (p_accountId p)"
    by (simp add: selectAccountById_def)
  with e have e': "selectAccountById d' (p_accountId p) \<noteq> None" by simp
  from a show ?thesis
    unfolding balance_is_fold[OF e] balance_is_fold[OF e' e(2)] by simp
qed

text \<open>
  Claim C2, amended. The balance the program reports is the sum, in the arithmetic
  of doubles and from the left, of the amounts of the entries that are in the account
  at that moment, and 0 for an account without entries. For the in-memory bot: after
  any sequence of appends, clears and deletions, started in any store,
  \<open>calculateReceiptTotal\<close> is that sum over the entries appended and neither cleared
  nor deleted since (with the entries of the starting store before them). For the
  persisted bot: \<open>getAccountBalance\<close> of an existing account is that sum over all its
  rows, whatever their amounts, and a successful \<open>createTransaction\<close> appends exactly
  its row and adds its amount to the balance. The sum of doubles is the arithmetic sum
  when the amounts are integers and every running sum stays within \<open>-2^53 .. 2^53\<close>.
\<close>

theorem balance_is_double_sum_of_live_entries:
  "calculateReceiptTotal (foldl apply_op st ops) n
     = foldl num_add (Fin 0) (map entry_amount (foldl (live_step n) (entries_of st n) ops))
   \<and> (map entry_amount (foldl (live_step n) (entries_of st n) ops) = int_amounts ks \<and> safe_sums 0 ks \<longrightarrow>
        calculateReceiptTotal (foldl apply_op st ops) n = Fin (of_int (sum_list ks)))
   \<and> (entries_of st n = [] \<longrightarrow> calculateReceiptTotal st n = Fin 0)
   \<and> (selectAccountById d i \<noteq> None \<and> \<not> blank i \<longrightarrow>
        getAccountBalance d i
          = Inr (foldl num_add (Fin 0) (map t_amount (selectTransactionsByAccount d i))))
   \<and> (selectAccountById d i \<noteq> None \<and> \<not> blank i \<and>
        map t_amount (selectTransactionsByAccount d i) = int_amounts js \<and> safe_sums 0 js \<longrightarrow>
        getAccountBalance d i = Inr (Fin (of_int (sum_list js))))
   \<and> (selectAccountById d i \<noteq> None \<and> \<not> blank i \<and> selectTransactionsByAccount d i = [] \<longrightarrow>
        getAccountBalance d i = Inr (Fin 0))
   \<and> (createTransaction accepts new_id p d = (Inr row, d') \<longrightarrow>
        selectTransactionsByAccount d' (p_accountId p)
          = selectTransactionsByAccount d (p_accountId p) @ [row] \<and> t_amount row = p_amount p \<and>
        (\<exists>b. getAccountBalance d (p_accountId p) = Inr b \<and>
             getAccountBalance d' (p_accountId p) = Inr (num_add b (p_amount p))))"
proof (intro conjI impI)
  show f: "calculateReceiptTotal (foldl apply_op st ops) n
     = foldl num_add (Fin 0) (map entry_amount (foldl (live_step n) (entries_of st n) ops))"
    by (simp add: total_is_fold entries_of_run)
  show "calculateReceiptTotal (foldl apply_op st ops) n = Fin (of_int (sum_list ks))"
    if "map entry_amount (foldl (live_step n) (entries_of st n) ops) = int_amounts ks \<and> safe_sums 0 ks"
    using that f by (simp add: foldl_safe0)
  show "calculateReceiptTotal st n = Fin 0" if "entries_of st n = []"
    using that by (simp add: total_is_fold)
  show "getAccountBalance d i
          = Inr (foldl num_add (Fin 0) (map t_amount (selectTransactionsByAccount d i)))"
    if "selectAccountById d i \<noteq> None \<and> \<not> blank i"
    using that by (simp add: balance_is_fold)
  show "getAccountBalance d i = Inr (Fin (of_int (sum_list js)))"
    if "selectAccountById d i \<noteq> None \<and> \<not> blank i \<and>
        map t_amount (selectTransactionsByAccount d i) = int_amounts js \<and> safe_sums 0 js"
    using that by (simp add: balance_is_fold foldl_safe0)
  show "getAccountBalance d i = Inr (Fin 0)"
    if "selectAccountById d i \<noteq> None \<and> \<not> blank i \<and> selectTransactionsByAccount d i = []"
    using that by (simp add: balance_is_fold)
next
  assume a: "createTransaction accepts new_id p d = (Inr row, d')"
  from createTransaction_appends[OF a]
  show "selectTransactionsByAccount d' (p_accountId p)
          = selectTransactionsByAccount d (p_accountId p) @ [row]"
    and "t_amount row = p_amount p" by simp_all
  from createTransaction_balance[OF a]
  show "\<exists>b. getAccountBalance d (p_accountId p) = Inr b \<and>
             getAccountBalance d' (p_accountId p) = Inr (num_add b (p_amount p))" .
qed

lemmas string_eval = str_def trim_def is_ws_def is_line_terminator_def is_dot_def is_digit_def
  is_sign_def

lemma round_double_numeral:
  "numeral w \<le> (9007199254740992 :: int) \<Longrightarrow> round_double (numeral w) = Fin (numeral w)"
  "numeral w \<le> (9007199254740992 :: int) \<Longrightarrow> round_double (- numeral w) = Fin (- numeral w)"
  "round_double 0 = Fin 0" "round_double 1 = Fin 1" "round_double (- 1) = Fin (- 1)"
  using round_double_int[of "numeral w"] round_double_int[of "- numeral w"]
    round_double_int[of 0] round_double_int[of 1] round_double_int[of "- 1"]
  by simp_all

text \<open>
  Witness for C2: in the example store, \<open>food\<close> holds milk and bread; a clear followed
  by an append of the rent leaves a balance of -3000; the empty receipt \<open>home\<close> has
  balance 0; the account \<open>a1\<close> of the example database has balance -40, and a new row
  of 4 for it is appended and brings the balance to -36; without rows the account
  has balance 0.
\<close>

theorem balance_is_double_sum_of_live_entries_witness:
  "calculateReceiptTotal example_bot (str ''food'') = Fin (- 40)
   \<and> map entry_amount (foldl (live_step (str ''food'')) (entries_of example_bot (str ''food''))
        [Clear (str ''food''), Append (str ''food'') [rent]]) = int_amounts [- 3000]
   \<and> safe_sums 0 [- 3000]
   \<and> calculateReceiptTotal
        (foldl apply_op example_bot [Clear (str ''food''), Append (str ''food'') [rent]]) (str ''food'')
       = Fin (- 3000)
   \<and> entries_of example_bot (str ''home'') = []
   \<and> calculateReceiptTotal example_bot (str ''home'') = Fin 0
   \<and> selectAccountById example_db (str ''a1'') \<noteq> None \<and> \<not> blank (str ''a1'')
   \<and> map t_amount (selectTransactionsByAccount example_db (str ''a1'')) = int_amounts [- 25, - 15]
   \<and> safe_sums 0 [- 25, - 15]
   \<and> getAccountBalance example_db (str ''a1'') = Inr (Fin (- 40))
   \<and> createTransaction (\<lambda>_ _. True) (str ''t3'')
        \<lparr>p_label = str ''tea'', p_amount = Fin 4, p_accountId = str ''a1''\<rparr> example_db
       = (Inr \<lparr>t_id = str ''t3'', t_label = str ''tea'', t_amount = Fin 4, t_account = str ''a1''\<rparr>,
          example_db\<lparr>Transactions := Transactions example_db @
            [\<lparr>t_id = str ''t3'', t_label = str ''tea'', t_amount = Fin 4, t_account = str ''a1''\<rparr>]\<rparr>)
   \<and> getAccountBalance
        (example_db\<lparr>Transactions := Transactions example_db @
            [\<lparr>t_id = str ''t3'', t_label = str ''tea'', t_amount = Fin 4, t_account = str ''a1''\<rparr>]\<rparr>)
        (str ''a1'') = Inr (Fin (- 36))
   \<and> selectAccountById (example_db\<lparr>Transactions := []\<rparr>) (str ''a1'') \<noteq> None
   \<and> selectTransactionsByAccount (example_db\<lparr>Transactions := []\<rparr>) (str ''a1'') = []
   \<and> getAccountBalance (example_db\<lparr>Transactions := []\<rparr>) (str ''a1'') = Inr (Fin 0)"
proof -
  let ?p = "\<lparr>p_label = str ''tea'', p_amount = Fin 4, p_accountId = str ''a1''\<rparr>"
  let ?row = "\<lparr>t_id = str ''t3'', t_label = str ''tea'', t_amount = Fin 4, t_account = str ''a1''\<rparr>"
  let ?d' = "example_db\<lparr>Transactions := Transactions example_db @ [?row]\<rparr>"
  let ?ops = "[Clear (str ''food''), Append (str ''food'') [rent]]"
  note T = balance_is_double_sum_of_live_entries[of example_bot ?ops "str ''food''" "[- 3000]"
      example_db "str ''a1''" "[- 25, - 15]" "\<lambda>_ _. True" "str ''t3''" ?p ?row ?d']
  note T0 = balance_is_double_sum_of_live_entries[of example_bot "[]" "str ''food''" "[- 25, - 15]"
      example_db "str ''a1''" "[- 25, - 15]" "\<lambda>_ _. True" "str ''t3''" ?p ?row ?d']
  note H = balance_is_double_sum_of_live_entries[of example_bot "[]" "str ''home''" "[]"
      example_db "str ''a1''" "[- 25, - 15]" "\<lambda>_ _. True" "str ''t3''" ?p ?row ?d']
  have l: "map entry_amount (foldl (live_step (str ''food'')) (entries_of example_bot (str ''food'')) ?ops)
      = int_amounts [- 3000]"
    "map entry_amount (foldl (live_step (str ''food'')) (entries_of example_bot (str ''food'')) [])
      = int_amounts [- 25, - 15]"
    by (simp_all add: example_bot_def entries_of_def rent_def milk_def bread_def int_amounts_def
        str_def)
  have s: "safe_sums 0 [- 3000]" "safe_sums 0 [- 25, - 15]" by simp_all
  have h: "entries_of example_bot (str ''home'') = []"
    by (simp add: example_bot_def entries_of_def str_def)
  have a: "selectAccountById example_db (str ''a1'') \<noteq> None" "\<not> blank (str ''a1'')"
    "map t_amount (selectTransactionsByAccount example_db (str ''a1'')) = int_amounts [- 25, - 15]"
    by (simp_all add: example_db_def selectAccountById_def selectTransactionsByAccount_def
        blank_def int_amounts_def string_eval)
  have c: "createTransaction (\<lambda>_ _. True) (str ''t3'') ?p example_db = (Inr ?row, ?d')"
    by (simp add: createTransaction_def selectAccountById_def example_db_def blank_def Let_def
        string_eval)
  from T l(1) s(1) have "calculateReceiptTotal (foldl apply_op example_bot ?ops) (str ''food'')
       = Fin (of_int (sum_list [- 3000]))" by blast
  then have 1: "calculateReceiptTotal (foldl apply_op example_bot ?ops) (str ''food'')
       = Fin (- 3000)" by simp
  from T0 l(2) s(2) have "calculateReceiptTotal (foldl apply_op example_bot []) (str ''food'')
       = Fin (of_int (sum_list [- 25, - 15]))" by blast
  then have 2: "calculateReceiptTotal example_bot (str ''food'') = Fin (- 40)" by simp
  from H h have 3: "calculateReceiptTotal example_bot (str ''home'') = Fin 0" by blast
  from T a s(2) have "getAccountBalance example_db (str ''a1'') = Inr (Fin (of_int (sum_list [- 25, - 15])))"
    by blast
  then have 4: "getAccountBalance example_db (str ''a1'') = Inr (Fin (- 40))" by simp
  from T c have "\<exists>b. getAccountBalance example_db (p_accountId ?p) = Inr b \<and>
             getAccountBalance ?d' (p_accountId ?p) = Inr (num_add b (p_amount ?p))" by blast
  with 4 have 5: "getAccountBalance ?d' (str ''a1'') = Inr (Fin (- 36))"
    by (simp add: round_double_numeral)
  have z: "selectAccountById (example_db\<lparr>Transactions := []\<rparr>) (str ''a1'') \<noteq> None"
    "selectTransactionsByAccount (example_db\<lparr>Transactions := []\<rparr>) (str ''a1'') = []"
    by (simp_all add: example_db_def selectAccountById_def selectTransactionsByAccount_def)
  from balance_is_double_sum_of_live_entries[of example_bot "[]" "str ''home''" "[]"
      "example_db\<lparr>Transactions := []\<rparr>" "str ''a1''" "[]" "\<lambda>_ _. True" "str ''t3''" ?p ?row ?d']
    z a(2)
  have 6: "getAccountBalance (example_db\<lparr>Transactions := []\<rparr>) (str ''a1'') = Inr (Fin 0)"
    by blast
  from 1 2 3 4 5 6 z l(1) s h a c show ?thesis by blast
qed

text \<open>
  Counterexample to C2 as stated: a receipt with the two entries \<open>a +9007199254740992\<close>
  and \<open>b +1\<close>, as the parser reads them, has the balance 9007199254740992, one less
  than the arithmetic sum; an account whose two rows hold the doubles 0.1 and 0.2 has
  a balance that is not their sum.
\<close>

theorem rounded_balance_counterexample:
  "parseFinancialEntries (str ''2024-01-01'') (str ''a +9007199254740992'' @ [10] @ str ''b +1'')
     = Inr [\<lparr>description = str ''a'', entry_amount = Fin 9007199254740992, date = str ''2024-01-01''\<rparr>,
            \<lparr>description = str ''b'', entry_amount = Fin 1, date = str ''2024-01-01''\<rparr>]
 \<and> calculateReceiptTotal
      \<lparr>receipts = [str ''big'' \<mapsto> \<lparr>receipt_name = str ''big'', entries =
           [\<lparr>description = str ''a'', entry_amount = Fin 9007199254740992, date = str ''2024-01-01''\<rparr>,
            \<lparr>description = str ''b'', entry_amount = Fin 1, date = str ''2024-01-01''\<rparr>]\<rparr>],
       userSessions = Map.empty\<rparr> (str ''big'')
     = Fin 9007199254740992
 \<and> round_double (1 / 10) = Fin (3602879701896397 / 36028797018963968)
 \<and> round_double (2 / 10) = Fin (3602879701896397 / 18014398509481984)
 \<and> getAccountBalance
      \<lparr>Accounts = [\<lparr>a_id = str ''a1'', a_name = str ''food''\<rparr>],
       Transactions =
         [\<lparr>t_id = str ''t1'', t_label = str ''x'', t_amount = Fin (3602879701896397 / 36028797018963968),
            t_account = str ''a1''\<rparr>,
          \<lparr>t_id = str ''t2'', t_label = str ''y'', t_amount = Fin (3602879701896397 / 18014398509481984),
            t_account = str ''a1''\<rparr>]\<rparr> (str ''a1'')
     = Inr (Fin (1351079888211149 / 4503599627370496))
 \<and> (3602879701896397 / 36028797018963968 + 3602879701896397 / 18014398509481984 :: rat)
     \<noteq> 1351079888211149 / 4503599627370496"
proof (intro conjI)
  show "parseFinancialEntries (str ''2024-01-01'') (str ''a +9007199254740992'' @ [10] @ str ''b +1'')
     = Inr [\<lparr>description = str ''a'', entry_amount = Fin 9007199254740992, date = str ''2024-01-01''\<rparr>,
            \<lparr>description = str ''b'', entry_amount = Fin 1, date = str ''2024-01-01''\<rparr>]"
    by (simp add: parseFinancialEntries_def entry_pattern_def entry_pattern_at_def
        greedy_plus_def lazy_plus_def one_of_def parseInt_def decimal_def
        digit_val_def parse_magnitude_def parseInt_capture_def string_eval round_double_numeral)
  have "num_add (Fin 0) (Fin 9007199254740992) = Fin 9007199254740992"
    using round_double_two53 by simp
  moreover have "num_add (Fin 9007199254740992) (Fin 1) = Fin 9007199254740992"
    using round_double_odd by simp
  ultimately show "calculateReceiptTotal
      \<lparr>receipts = [str ''big'' \<mapsto> \<lparr>receipt_name = str ''big'', entries =
           [\<lparr>description = str ''a'', entry_amount = Fin 9007199254740992, date = str ''2024-01-01''\<rparr>,
            \<lparr>description = str ''b'', entry_amount = Fin 1, date = str ''2024-01-01''\<rparr>]\<rparr>],
       userSessions = Map.empty\<rparr> (str ''big'')
     = Fin 9007199254740992"
    by (simp add: calculateReceiptTotal_def)
  show "round_double (1 / 10) = Fin (3602879701896397 / 36028797018963968)"
  proof (rule round_double_pos)
    show "(0::rat) < 1 / 10" by simp
    show "floor_log2 (1 / 10) = - 4" by (simp add: floor_log2_def bit_length.simps)
    show "pow2 (max (- 4) (- 1022) - 52) = 1 / 2 ^ 56" by (simp add: pow2_def)
    show "round_half_even (1 / 10 / (1 / 2 ^ 56)) = 7205759403792794"
      by (simp add: round_half_even_def floor_numeral_div)
    show "of_int 7205759403792794 * (1 / 2 ^ 56) = (3602879701896397 / 36028797018963968 :: rat)"
      by simp
    show "(3602879701896397 / 36028797018963968 :: rat) < 2 ^ 1024" by simp
  qed
  show "round_double (2 / 10) = Fin (3602879701896397 / 18014398509481984)"
  proof (rule round_double_pos)
    show "(0::rat) < 2 / 10" by simp
    show "floor_log2 (2 / 10) = - 3" by (simp add: floor_log2_def bit_length.simps)
    show "pow2 (max (- 3) (- 1022) - 52) = 1 / 2 ^ 55" by (simp add: pow2_def)
    show "round_half_even (2 / 10 / (1 / 2 ^ 55)) = 7205759403792794"
      by (simp add: round_half_even_def floor_numeral_div)
    show "of_int 7205759403792794 * (1 / 2 ^ 55) = (3602879701896397 / 18014398509481984 :: rat)"
      by simp
    show "(3602879701896397 / 18014398509481984 :: rat) < 2 ^ 1024" by simp
  qed
  have s: "(3602879701896397 / 36028797018963968 + 3602879701896397 / 18014398509481984 :: rat)
      = 10808639105689191 / 36028797018963968" by simp
  have r: "round_double (10808639105689191 / 36028797018963968)
      = Fin (1351079888211149 / 4503599627370496)"
  proof (rule round_double_pos)
    show "(0::rat) < 10808639105689191 / 36028797018963968" by simp
    show "floor_log2 (10808639105689191 / 36028797018963968) = - 2"
      by (simp add: floor_log2_def bit_length.simps ceiling_numeral_div)
    show "pow2 (max (- 2) (- 1022) - 52) = 1 / 2 ^ 54" by (simp add: pow2_def)
    show "round_half_even (10808639105689191 / 36028797018963968 / (1 / 2 ^ 54)) = 5404319552844596"
      by (simp add: round_half_even_def floor_numeral_div)
    show "of_int 5404319552844596 * (1 / 2 ^ 54) = (1351079888211149 / 4503599627370496 :: rat)"
      by simp
    show "(1351079888211149 / 4503599627370496 :: rat) < 2 ^ 1024" by simp
  qed
  have "round_double (3602879701896397 / 36028797018963968)
      = Fin (3602879701896397 / 36028797018963968)"
  proof (rule round_double_pos)
    show "(0::rat) < 3602879701896397 / 36028797018963968" by simp
    show "floor_log2 (3602879701896397 / 36028797018963968) = - 4"
      by (simp add: floor_log2_def bit_length.simps ceiling_numeral_div)
    show "pow2 (max (- 4) (- 1022) - 52) = 1 / 2 ^ 56" by (simp add: pow2_def)
    show "round_half_even (3602879701896397 / 36028797018963968 / (1 / 2 ^ 56)) = 7205759403792794"
      by (simp add: round_half_even_def floor_numeral_div)
    show "of_int 7205759403792794 * (1 / 2 ^ 56) = (3602879701896397 / 36028797018963968 :: rat)"
      by simp
    show "(3602879701896397 / 36028797018963968 :: rat) < 2 ^ 1024" by simp
  qed
  then have a: "num_add (Fin 0) (Fin (3602879701896397 / 36028797018963968))
      = Fin (3602879701896397 / 36028797018963968)"
    by simp
  show "getAccountBalance
      \<lparr>Accounts = [\<lparr>a_id = str ''a1'', a_name = str ''food''\<rparr>],
       Transactions =
         [\<lparr>t_id = str ''t1'', t_label = str ''x'', t_amount = Fin (3602879701896397 / 36028797018963968),
            t_account = str ''a1''\<rparr>,
          \<lparr>t_id = str ''t2'', t_label = str ''y'', t_amount = Fin (3602879701896397 / 18014398509481984),
            t_account = str ''a1''\<rparr>]\<rparr> (str ''a1'')
     = Inr (Fin (1351079888211149 / 4503599627370496))"
    using a r s
    by (simp add: getAccountBalance_def getTransactionInAccount_def selectAccountById_def
        selectTransactionsByAccount_def blank_def string_eval)
  show "(3602879701896397 / 36028797018963968 + 3602879701896397 / 18014398509481984 :: rat)
     \<noteq> 1351079888211149 / 4503599627370496" by simp
qed
section \<open>Reports\<close>

lemma num_abs_ge0: "num_ge0 a \<Longrightarrow> num_abs a = a"
  by (cases a) simp_all

lemma plain_number:
  "\<bar>k\<bar> \<le> 2 ^ 53 \<Longrightarrow>
   (if num_ge0 (Fin (of_int k)) then str ''+'' else []) @ Number_toString (Fin (of_int k))
     = plain_signed k"
  by (simp add: Number_toString_int show_int_def plain_signed_def str_def)

lemma safe_sums_total: "safe_sums a ks \<Longrightarrow> \<bar>a + sum_list ks\<bar> \<le> 2 ^ 53"
proof (induction ks arbitrary: a)
  case Nil
  then show ?case by simp
next
  case (Cons k ks)
  from Cons.prems have "safe_sums (a + k) ks" by simp
  from Cons.IH[OF this] show ?case by (simp add: add.assoc)
qed

lemma no_entries_not_report: "no_entries_message cur \<noteq> formatResponse st n"
  by (auto simp: no_entries_message_def formatResponse_def str_def Let_def split: option.splits)

lemma formatResponse_listing:
  "receipts st n = Some r \<Longrightarrow>
   formatResponse st n = str ''**Receipt: '' @ n @ str ''**'' @ [10, 10] @ str ''```'' @ [10] @
     concat (map format_entry (entries r)) @ [10] @ str ''Total: '' @
     (if num_ge0 (foldl num_add (Fin 0) (map entry_amount (entries r))) then str ''+'' else []) @
     Number_toString (foldl num_add (Fin 0) (map entry_amount (entries r))) @ [10] @ str ''```''"
  by (simp add: formatResponse_def calculateReceiptTotal_def foldl_amounts[of entry_amount] Let_def)

text \<open>
  Claim C5, amended. \<open>parseTransactions\<close> writes every entry as a marker, a sign and
  the locale rendering of the absolute value: the gain marker and \<open>+\<close> for an amount
  that is \<open>>= 0\<close>, the loss marker and \<open>-\<close> for every other amount (a negative one,
  or NaN); its total line writes the sum with the same sign and the same rendering,
  after its own pair of markers. \<open>formatResponse\<close> writes every entry after the fixed
  marker \<open>-\<close>, as the description, the amount as \<open>String\<close> gives it, with a \<open>+\<close> in
  front when it is \<open>>= 0\<close>, and the date; its total line writes the sum in the same
  way. For an integer amount of magnitude at most \<open>2^53\<close> that is \<open>+\<close> or \<open>-\<close> and the
  plain decimal digits of the absolute value (no grouping of thousands, no marker
  that depends on the sign), and likewise for the total when the amounts are integers
  whose running sums stay in that range.
\<close>

theorem report_sign_convention:
  "(num_ge0 (t_amount t) \<longrightarrow>
      entry_line f t = emoji_gain @ str '' +'' @ f (t_amount t) @ str ''  \"'' @ t_label t @ str ''\"'')
 \<and> (\<not> num_ge0 (t_amount t) \<longrightarrow>
      entry_line f t = emoji_loss @ str '' -'' @ f (num_abs (t_amount t)) @ str ''  \"'' @ t_label t @ str ''\"'')
 \<and> (t_amount t = Fin q \<and> q < 0 \<longrightarrow>
      entry_line f t = emoji_loss @ str '' -'' @ f (Fin (- q)) @ str ''  \"'' @ t_label t @ str ''\"'')
 \<and> (t_amount t = NaN \<longrightarrow>
      entry_line f t = emoji_loss @ str '' -'' @ f NaN @ str ''  \"'' @ t_label t @ str ''\"'')
 \<and> parseTransactions f ts = join [10] (map (entry_line f) ts) @ [10, 10] @
      (if num_ge0 (foldl num_add (Fin 0) (map t_amount ts))
       then emoji_total_up else emoji_total_down) @
      str '' Total: '' @ signed_amount f (foldl num_add (Fin 0) (map t_amount ts))
 \<and> format_entry e = str ''- '' @ description e @ str '' '' @
      (if num_ge0 (entry_amount e) then str ''+'' else []) @ Number_toString (entry_amount e) @
      str '' ['' @ date e @ str '']'' @ [10]
 \<and> (entry_amount e = Fin (of_int k) \<and> \<bar>k\<bar> \<le> 2 ^ 53 \<longrightarrow>
      format_entry e = str ''- '' @ description e @ str '' '' @ plain_signed k @
        str '' ['' @ date e @ str '']'' @ [10])
 \<and> (receipts st n = Some r \<longrightarrow>
      formatResponse st n = str ''**Receipt: '' @ n @ str ''**'' @ [10, 10] @ str ''```'' @ [10] @
        concat (map format_entry (entries r)) @ [10] @ str ''Total: '' @
        (if num_ge0 (foldl num_add (Fin 0) (map entry_amount (entries r))) then str ''+'' else []) @
        Number_toString (foldl num_add (Fin 0) (map entry_amount (entries r))) @ [10] @ str ''```'')
 \<and> (receipts st n = Some r \<and> map entry_amount (entries r) = int_amounts ks \<and> safe_sums 0 ks \<longrightarrow>
      formatResponse st n = str ''**Receipt: '' @ n @ str ''**'' @ [10, 10] @ str ''```'' @ [10] @
        concat (map format_entry (entries r)) @ [10] @ str ''Total: '' @
        plain_signed (sum_list ks) @ [10] @ str ''```'')"
proof (intro conjI impI)
  show "entry_line f t = emoji_gain @ str '' +'' @ f (t_amount t) @ str ''  \"'' @ t_label t @ str ''\"''"
    if "num_ge0 (t_amount t)"
    using that by (simp add: entry_line_def num_abs_ge0 str_def)
  show "entry_line f t = emoji_loss @ str '' -'' @ f (num_abs (t_amount t)) @ str ''  \"'' @ t_label t @ str ''\"''"
    if "\<not> num_ge0 (t_amount t)"
    using that by (simp add: entry_line_def str_def)
  show "entry_line f t = emoji_loss @ str '' -'' @ f (Fin (- q)) @ str ''  \"'' @ t_label t @ str ''\"''"
    if "t_amount t = Fin q \<and> q < 0"
    using that by (simp add: entry_line_def str_def)
  show "entry_line f t = emoji_loss @ str '' -'' @ f NaN @ str ''  \"'' @ t_label t @ str ''\"''"
    if "t_amount t = NaN"
    using that by (simp add: entry_line_def str_def)
  show "parseTransactions f ts = join [10] (map (entry_line f) ts) @ [10, 10] @
      (if num_ge0 (foldl num_add (Fin 0) (map t_amount ts))
       then emoji_total_up else emoji_total_down) @
      str '' Total: '' @ signed_amount f (foldl num_add (Fin 0) (map t_amount ts))"
    by (simp add: parseTransactions_def signed_amount_def Let_def foldl_amounts[of t_amount])
  show "format_entry e = str ''- '' @ description e @ str '' '' @
      (if num_ge0 (entry_amount e) then str ''+'' else []) @ Number_toString (entry_amount e) @
      str '' ['' @ date e @ str '']'' @ [10]"
    by (simp add: format_entry_def)
  show "format_entry e = str ''- '' @ description e @ str '' '' @ plain_signed k @
        str '' ['' @ date e @ str '']'' @ [10]"
    if "entry_amount e = Fin (of_int k) \<and> \<bar>k\<bar> \<le> 2 ^ 53"
  proof -
    from that have k: "entry_amount e = Fin (of_int k)" "\<bar>k\<bar> \<le> 2 ^ 53" by simp_all
    show ?thesis unfolding format_entry_def k(1) using plain_number[OF k(2)] by simp
  qed
  show "formatResponse st n = str ''**Receipt: '' @ n @ str ''**'' @ [10, 10] @ str ''```'' @ [10] @
        concat (map format_entry (entries r)) @ [10] @ str ''Total: '' @
        (if num_ge0 (foldl num_add (Fin 0) (map entry_amount (entries r))) then str ''+'' else []) @
        Number_toString (foldl num_add (Fin 0) (map entry_amount (entries r))) @ [10] @ str ''```''"
    if "receipts st n = Some r"
    using that by (rule formatResponse_listing)
  show "formatResponse st n = str ''**Receipt: '' @ n @ str ''**'' @ [10, 10] @ str ''```'' @ [10] @
        concat (map format_entry (entries r)) @ [10] @ str ''Total: '' @
        plain_signed (sum_list ks) @ [10] @ str ''```''"
    if "receipts st n = Some r \<and> map entry_amount (entries r) = int_amounts ks \<and> safe_sums 0 ks"
  proof -
    from that have h: "receipts st n = Some r" "map entry_amount (entries r) = int_amounts ks"
      "safe_sums 0 ks" by simp_all
    from safe_sums_total[OF h(3)] have b: "\<bar>sum_list ks\<bar> \<le> 2 ^ 53" by simp
    show ?thesis
      unfolding formatResponse_listing[OF h(1)] h(2) foldl_safe0[OF h(3)]
      using plain_number[OF b] by simp
  qed
qed

lemmas number_eval = show_int_def plain_signed_def signed_amount_def en_US_def
  Number_toString_numeral

text \<open>
  Witness for C5: with the en-US renderer, a row of -2500 is written with the loss
  marker as \<open>-2,500\<close> and a row of 1200 with the gain marker as \<open>+1,200\<close>, the total
  of the two as \<open>-1,300\<close> after the falling marker, and a row of NaN with the loss
  marker and \<open>-\<close>; the in-memory report of the example receipt lists \<open>-25\<close> and
  \<open>-15\<close> and the total \<open>-40\<close>. An entry of \<open>10^21\<close>, beyond the range of the plain
  digits, is written \<open>+1e+21\<close>.
\<close>

theorem report_sign_convention_witness:
  "entry_line en_US \<lparr>t_id = [], t_label = str ''rent'', t_amount = Fin (- 2500), t_account = []\<rparr>
     = emoji_loss @ str '' -2,500  \"rent\"''
 \<and> entry_line en_US \<lparr>t_id = [], t_label = str ''pay'', t_amount = Fin 1200, t_account = []\<rparr>
     = emoji_gain @ str '' +1,200  \"pay\"''
 \<and> \<not> num_ge0 (Fin (- 2500)) \<and> num_ge0 (Fin 1200) \<and> \<not> num_ge0 NaN
 \<and> entry_line en_US \<lparr>t_id = [], t_label = str ''odd'', t_amount = NaN, t_account = []\<rparr>
     = emoji_loss @ str '' -NaN  \"odd\"''
 \<and> parseTransactions en_US
      [\<lparr>t_id = [], t_label = str ''rent'', t_amount = Fin (- 2500), t_account = []\<rparr>,
       \<lparr>t_id = [], t_label = str ''pay'', t_amount = Fin 1200, t_account = []\<rparr>]
     = emoji_loss @ str '' -2,500  \"rent\"'' @ [10] @ emoji_gain @ str '' +1,200  \"pay\"'' @
       [10, 10] @ emoji_total_down @ str '' Total: -1,300''
 \<and> receipts example_bot (str ''food'')
     = Some \<lparr>receipt_name = str ''food'', entries = [milk, bread]\<rparr>
 \<and> entry_amount milk = Fin (of_int (- 25)) \<and> \<bar>- 25 :: int\<bar> \<le> 2 ^ 53
 \<and> map entry_amount (entries \<lparr>receipt_name = str ''food'', entries = [milk, bread]\<rparr>)
     = int_amounts [- 25, - 15]
 \<and> safe_sums 0 [- 25, - 15]
 \<and> format_entry milk = str ''- milk -25 [2024-01-01]'' @ [10]
 \<and> format_entry \<lparr>description = str ''x'', entry_amount = Fin 1000000000000000000000,
                   date = str ''2024-01-01''\<rparr>
     = str ''- x +1e+21 [2024-01-01]'' @ [10]
 \<and> formatResponse example_bot (str ''food'')
     = str ''**Receipt: food**'' @ [10, 10] @ str ''```'' @ [10] @
       str ''- milk -25 [2024-01-01]'' @ [10] @ str ''- bread -15 [2024-01-01]'' @ [10] @
       [10] @ str ''Total: -40'' @ [10] @ str ''```''"
proof -
  let ?rent = "\<lparr>t_id = [], t_label = str ''rent'', t_amount = Fin (- 2500), t_account = []\<rparr>"
  let ?pay = "\<lparr>t_id = [], t_label = str ''pay'', t_amount = Fin 1200, t_account = []\<rparr>"
  let ?odd = "\<lparr>t_id = [], t_label = str ''odd'', t_amount = NaN, t_account = []\<rparr>"
  let ?food = "\<lparr>receipt_name = str ''food'', entries = [milk, bread]\<rparr>"
  note R = report_sign_convention[of ?rent en_US "- 2500" "[?rent, ?pay]" milk "- 25"
      example_bot "str ''food''" ?food "[- 25, - 15]"]
  note P = report_sign_convention[of ?pay en_US 0 "[]" bread "- 15"
      example_bot "str ''food''" ?food "[- 25, - 15]"]
  note N = report_sign_convention[of ?odd en_US 0 "[]" bread "- 15"
      example_bot "str ''food''" ?food "[- 25, - 15]"]
  have h: "receipts example_bot (str ''food'') = Some ?food"
    "entry_amount milk = Fin (of_int (- 25))" "\<bar>- 25 :: int\<bar> \<le> 2 ^ 53"
    "entry_amount bread = Fin (of_int (- 15))" "\<bar>- 15 :: int\<bar> \<le> 2 ^ 53"
    "map entry_amount (entries ?food) = int_amounts [- 25, - 15]" "safe_sums 0 [- 25, - 15]"
    by (simp_all add: example_bot_def milk_def bread_def int_amounts_def str_def)
  have "t_amount ?rent = Fin (- 2500) \<and> (- 2500 :: rat) < 0" by simp
  with R have "entry_line en_US ?rent
      = emoji_loss @ str '' -'' @ en_US (Fin (- (- 2500))) @ str ''  \"'' @ t_label ?rent @ str ''\"''"
    by blast
  then have 1: "entry_line en_US ?rent = emoji_loss @ str '' -2,500  \"rent\"''"
    by (simp add: number_eval str_def)
  have "num_ge0 (t_amount ?pay)" by simp
  with P have "entry_line en_US ?pay
      = emoji_gain @ str '' +'' @ en_US (t_amount ?pay) @ str ''  \"'' @ t_label ?pay @ str ''\"''"
    by blast
  then have 2: "entry_line en_US ?pay = emoji_gain @ str '' +1,200  \"pay\"''"
    by (simp add: number_eval str_def)
  have sg: "\<not> num_ge0 (Fin (- 2500))" "num_ge0 (Fin 1200)" "\<not> num_ge0 NaN" by simp_all
  have "\<not> num_ge0 (t_amount ?odd)" by simp
  with N have "entry_line en_US ?odd
      = emoji_loss @ str '' -'' @ en_US (num_abs (t_amount ?odd)) @ str ''  \"'' @ t_label ?odd @ str ''\"''"
    by blast
  then have 3: "entry_line en_US ?odd = emoji_loss @ str '' -NaN  \"odd\"''"
    by (simp add: number_eval str_def)
  from R have "parseTransactions en_US [?rent, ?pay]
      = join [10] (map (entry_line en_US) [?rent, ?pay]) @ [10, 10] @
        (if num_ge0 (foldl num_add (Fin 0) (map t_amount [?rent, ?pay]))
         then emoji_total_up else emoji_total_down) @
        str '' Total: '' @ signed_amount en_US (foldl num_add (Fin 0) (map t_amount [?rent, ?pay]))"
    by blast
  moreover have "join [10] (map (entry_line en_US) [?rent, ?pay])
      = emoji_loss @ str '' -2,500  \"rent\"'' @ [10] @ emoji_gain @ str '' +1,200  \"pay\"''"
    by (simp add: 1 2)
  moreover have "foldl num_add (Fin 0) (map t_amount [?rent, ?pay]) = Fin (- 1300)"
    by (simp add: round_double_numeral)
  ultimately have 4: "parseTransactions en_US [?rent, ?pay]
     = emoji_loss @ str '' -2,500  \"rent\"'' @ [10] @ emoji_gain @ str '' +1,200  \"pay\"'' @
       [10, 10] @ emoji_total_down @ str '' Total: -1,300''"
    by (simp add: number_eval str_def)
  from R h have "format_entry milk = str ''- '' @ description milk @ str '' '' @ plain_signed (- 25) @
        str '' ['' @ date milk @ str '']'' @ [10]"
    by blast
  then have 5: "format_entry milk = str ''- milk -25 [2024-01-01]'' @ [10]"
    by (simp add: milk_def number_eval str_def)
  from P h have "format_entry bread = str ''- '' @ description bread @ str '' '' @ plain_signed (- 15) @
        str '' ['' @ date bread @ str '']'' @ [10]"
    by blast
  then have 6: "format_entry bread = str ''- bread -15 [2024-01-01]'' @ [10]"
    by (simp add: bread_def number_eval str_def)
  from R h have "formatResponse example_bot (str ''food'')
      = str ''**Receipt: '' @ str ''food'' @ str ''**'' @ [10, 10] @ str ''```'' @ [10] @
        concat (map format_entry (entries ?food)) @ [10] @ str ''Total: '' @
        plain_signed (sum_list [- 25, - 15]) @ [10] @ str ''```''"
    by blast
  then have 7: "formatResponse example_bot (str ''food'')
     = str ''**Receipt: food**'' @ [10, 10] @ str ''```'' @ [10] @
       str ''- milk -25 [2024-01-01]'' @ [10] @ str ''- bread -15 [2024-01-01]'' @ [10] @
       [10] @ str ''Total: -40'' @ [10] @ str ''```''"
    by (simp add: 5 6 number_eval str_def)
  let ?big = "\<lparr>description = str ''x'', entry_amount = Fin 1000000000000000000000,
      date = str ''2024-01-01''\<rparr>"
  from report_sign_convention[of ?rent en_US "- 2500" "[?rent, ?pay]" ?big "- 25"
      example_bot "str ''food''" ?food "[- 25, - 15]"]
  have "format_entry ?big = str ''- '' @ description ?big @ str '' '' @
      (if num_ge0 (entry_amount ?big) then str ''+'' else []) @ Number_toString (entry_amount ?big) @
      str '' ['' @ date ?big @ str '']'' @ [10]"
    by blast
  then have 8: "format_entry ?big = str ''- x +1e+21 [2024-01-01]'' @ [10]"
    by (simp add: Number_toString_1e21 str_def)
  from 1 2 3 4 5 7 8 h sg show ?thesis by blast
qed

text \<open>
  Counterexample to C5 as stated: the report of the in-memory bot writes an entry of
  -3000 as \<open>-3000\<close>, after the same marker \<open>-\<close> that every entry gets; the en-US
  rendering of 3000 would be \<open>3,000\<close>, and no separator occurs in the report.
\<close>

theorem plain_report_counterexample:
  "formatResponse
     \<lparr>receipts = [str ''home'' \<mapsto> \<lparr>receipt_name = str ''home'', entries = [rent]\<rparr>],
      userSessions = Map.empty\<rparr> (str ''home'')
     = str ''**Receipt: home**'' @ [10, 10] @ str ''```'' @ [10] @
       str ''- rent -3000 [2024-01-01]'' @ [10] @
       [10] @ str ''Total: -3000'' @ [10] @ str ''```''
 \<and> en_US (Fin 3000) = str ''3,000''
 \<and> 44 \<notin> set (formatResponse
     \<lparr>receipts = [str ''home'' \<mapsto> \<lparr>receipt_name = str ''home'', entries = [rent]\<rparr>],
      userSessions = Map.empty\<rparr> (str ''home''))"
  by (simp add: formatResponse_def calculateReceiptTotal_def format_entry_def rent_def
      round_double_numeral number_eval str_def)
section \<open>Rendering an account\<close>

lemma getTransactionInAccount_rows:
  "getTransactionInAccount d i = Inr ts \<Longrightarrow> ts = selectTransactionsByAccount d i"
  by (auto simp: getTransactionInAccount_def split: if_splits option.splits)

lemma on_text_report:
  assumes "\<not> awaitingAccountCreation m" "selectedAccountId m = Some i" "i \<noteq> []"
    and "parseMessage text = Inr (Some tr)"
    and "on_text aa ar new_id f text m = (Inr replies, m')"
  shows "\<exists>row. replies = [parseTransactions f (selectTransactionsByAccount (store m) i @ [row])] \<and>
           t_label row = trim (label tr) \<and>
           t_amount row = num_mul (amount tr) (if sign tr = Negative then Fin (- 1) else Fin 1) \<and>
           m' = m\<lparr>store := (store m)\<lparr>Transactions := Transactions (store m) @ [row]\<rparr>\<rparr>"
proof -
  let ?p = "\<lparr>p_label = label tr,
            p_amount = num_mul (amount tr) (if sign tr = Negative then Fin (- 1) else Fin 1),
            p_accountId = i\<rparr>"
  obtain res d where c: "createTransaction ar new_id ?p (store m) = (res, d)"
    by (cases "createTransaction ar new_id ?p (store m)")
  show ?thesis
  proof (cases res)
    case (Inl e)
    with assms c show ?thesis by (simp add: on_text_def)
  next
    case (Inr row)
    note a = createTransaction_appends[OF c[unfolded Inr]]
    from c[unfolded Inr] have d: "d = (store m)\<lparr>Transactions := Transactions (store m) @ [row]\<rparr>"
      by (auto simp: createTransaction_def Let_def split: if_splits option.splits)
    show ?thesis
    proof (cases "getTransactionInAccount d i")
      case (Inl e)
      with assms c Inr show ?thesis by (simp add: on_text_def)
    next
      case r: (Inr ts)
      from getTransactionInAccount_rows[OF r] a
      have ts: "ts = selectTransactionsByAccount (store m) i @ [row]" by simp
      from assms c Inr r have "replies = [parseTransactions f ts]" "m' = m\<lparr>store := d\<rparr>"
        by (simp_all add: on_text_def)
      with ts a d have "replies = [parseTransactions f (selectTransactionsByAccount (store m) i @ [row])] \<and>
           t_label row = trim (label tr) \<and>
           t_amount row = num_mul (amount tr) (if sign tr = Negative then Fin (- 1) else Fin 1) \<and>
           m' = m\<lparr>store := (store m)\<lparr>Transactions := Transactions (store m) @ [row]\<rparr>\<rparr>"
        by simp
      then show ?thesis by (rule exI)
    qed
  qed
qed

lemma on_text_replies:
  assumes "fst (on_text aa ar new_id f text m) = Inr replies"
  shows "replies = [[9989] @ str '' Account \"'' @ text @ str ''\" created successfully.'']
       \<or> replies = [[10060] @ str '' Failed to create account!'']
       \<or> replies = [str ''No account selected'']
       \<or> replies = [invalid_format_message]
       \<or> (\<exists>ts. ts \<noteq> [] \<and> replies = [parseTransactions f ts])"
proof (cases "awaitingAccountCreation m")
  case True
  with assms show ?thesis
    by (auto simp: on_text_def split: prod.splits sum.splits)
next
  case na: False
  show ?thesis
  proof (cases "selectedAccountId m")
    case None
    with assms na show ?thesis by (simp add: on_text_def)
  next
    case (Some i)
    show ?thesis
    proof (cases "i = []")
      case True
      with assms na Some show ?thesis by (simp add: on_text_def)
    next
      case ne: False
      show ?thesis
      proof (cases "parseMessage text")
        case (Inl e)
        with assms na Some ne show ?thesis by (simp add: on_text_def)
      next
        case (Inr r)
        show ?thesis
        proof (cases r)
          case None
          with assms na Some ne Inr show ?thesis by (simp add: on_text_def)
        next
          case tr: (Some tr)
          obtain m' where "on_text aa ar new_id f text m = (Inr replies, m')"
            using assms by (cases "on_text aa ar new_id f text m") simp
          from on_text_report[OF na Some ne Inr[unfolded tr] this]
          show ?thesis by blast
        qed
      qed
    qed
  qed
qed

text \<open>
  Claim C7, amended. In the in-memory bot, when the active receipt of the sender of
  \<open>/current\<close> has no entries (or does not exist), the handler replies with the short
  message that names the receipt and ends in \<open>No entries yet.\<close>; when it has entries,
  the handler replies with the listing: the header, one line for each entry, and the
  total line. The two replies are different texts. An active receipt is one with a
  name that is not empty. The persisted bot has no message for an account without
  rows: \<open>parseTransactions\<close> writes the empty listing followed by the total line
  \<open>Total: +\<close> and the rendering of 0; its text handler calls \<open>parseTransactions\<close> only
  after it has stored a row, so every reply of that handler is one of its four fixed
  messages or the report of at least one row.
\<close>

theorem empty_receipt_rendering:
  "(from_id c = Some userId \<and> userId \<noteq> 0 \<and> userSessions st userId = Some session \<and>
      selected session = Some cur \<and> entries_of st cur = [] \<longrightarrow>
      current_command c st =
        ([[55357, 56523] @ str '' Current receipt: \"'' @ cur @ str ''\"'' @ [10] @
          str ''No entries yet.''], st))
 \<and> (from_id c = Some userId \<and> userId \<noteq> 0 \<and> userSessions st userId = Some session \<and>
      selected session = Some cur \<and> receipts st cur = Some r \<and> entries r \<noteq> [] \<longrightarrow>
      current_command c st =
        ([str ''**Receipt: '' @ cur @ str ''**'' @ [10, 10] @ str ''```'' @ [10] @
          concat (map format_entry (entries r)) @ [10] @ str ''Total: '' @
          (if num_ge0 (foldl num_add (Fin 0) (map entry_amount (entries r))) then str ''+'' else []) @
          Number_toString (foldl num_add (Fin 0) (map entry_amount (entries r))) @ [10] @
          str ''```''], st))
 \<and> format_entry e = str ''- '' @ description e @ str '' '' @
      (if num_ge0 (entry_amount e) then str ''+'' else []) @ Number_toString (entry_amount e) @
      str '' ['' @ date e @ str '']'' @ [10]
 \<and> [55357, 56523] @ str '' Current receipt: \"'' @ cur @ str ''\"'' @ [10] @ str ''No entries yet.''
      \<noteq> formatResponse st' n
 \<and> parseTransactions f [] = [10, 10] @ emoji_total_up @ str '' Total: +'' @ f (Fin 0)
 \<and> (fst (on_text aa ar new_id f text m) = Inr replies \<longrightarrow>
      replies = [[9989] @ str '' Account \"'' @ text @ str ''\" created successfully.'']
      \<or> replies = [[10060] @ str '' Failed to create account!'']
      \<or> replies = [str ''No account selected'']
      \<or> replies = [invalid_format_message]
      \<or> (\<exists>ts. ts \<noteq> [] \<and> replies = [parseTransactions f ts]))"
proof (intro conjI impI)
  show "current_command c st =
        ([[55357, 56523] @ str '' Current receipt: \"'' @ cur @ str ''\"'' @ [10] @
          str ''No entries yet.''], st)"
    if "from_id c = Some userId \<and> userId \<noteq> 0 \<and> userSessions st userId = Some session \<and>
      selected session = Some cur \<and> entries_of st cur = []"
    using that
    by (auto simp: current_command_def getUserSession_def entries_of_def no_entries_message_def
        split: option.splits)
  show "current_command c st =
        ([str ''**Receipt: '' @ cur @ str ''**'' @ [10, 10] @ str ''```'' @ [10] @
          concat (map format_entry (entries r)) @ [10] @ str ''Total: '' @
          (if num_ge0 (foldl num_add (Fin 0) (map entry_amount (entries r))) then str ''+'' else []) @
          Number_toString (foldl num_add (Fin 0) (map entry_amount (entries r))) @ [10] @
          str ''```''], st)"
    if "from_id c = Some userId \<and> userId \<noteq> 0 \<and> userSessions st userId = Some session \<and>
      selected session = Some cur \<and> receipts st cur = Some r \<and> entries r \<noteq> []"
  proof -
    from that have h: "from_id c = Some userId" "userId \<noteq> 0" "userSessions st userId = Some session"
      "selected session = Some cur" "receipts st cur = Some r" "entries r \<noteq> []"
      by simp_all
    then have "current_command c st = ([formatResponse st cur], st)"
      by (simp add: current_command_def getUserSession_def)
    then show ?thesis unfolding formatResponse_listing[OF h(5)] .
  qed
  show "format_entry e = str ''- '' @ description e @ str '' '' @
      (if num_ge0 (entry_amount e) then str ''+'' else []) @ Number_toString (entry_amount e) @
      str '' ['' @ date e @ str '']'' @ [10]"
    by (simp add: format_entry_def)
  show "[55357, 56523] @ str '' Current receipt: \"'' @ cur @ str ''\"'' @ [10] @ str ''No entries yet.''
      \<noteq> formatResponse st' n"
    using no_entries_not_report[of cur st' n] by (simp add: no_entries_message_def)
  show "parseTransactions f [] = [10, 10] @ emoji_total_up @ str '' Total: +'' @ f (Fin 0)"
    by (simp add: parseTransactions_def str_def)
  show "replies = [[9989] @ str '' Account \"'' @ text @ str ''\" created successfully.'']
      \<or> replies = [[10060] @ str '' Failed to create account!'']
      \<or> replies = [str ''No account selected'']
      \<or> replies = [invalid_format_message]
      \<or> (\<exists>ts. ts \<noteq> [] \<and> replies = [parseTransactions f ts])"
    if "fst (on_text aa ar new_id f text m) = Inr replies"
    using that by (rule on_text_replies)
qed

text \<open>
  Witness for C7: in the example store user 8 has the empty receipt \<open>home\<close> active and
  gets the short message; user 7 has \<open>food\<close> active and gets its listing with the two
  entries and the total -40. In the persisted bot, with the account \<open>a1\<close> of the
  example database selected, the text \<open>tea +4\<close> is answered with the report of the
  three rows the account then has.
\<close>

theorem empty_receipt_rendering_witness:
  "userSessions example_bot 8 = Some \<lparr>currentReceipt = Some (str ''home'')\<rparr>
 \<and> selected \<lparr>currentReceipt = Some (str ''home'')\<rparr> = Some (str ''home'')
 \<and> entries_of example_bot (str ''home'') = []
 \<and> current_command \<lparr>from_id = Some 8, message_text = Some (str ''/current'')\<rparr> example_bot
     = ([[55357, 56523] @ str '' Current receipt: \"home\"'' @ [10] @ str ''No entries yet.''],
        example_bot)
 \<and> userSessions example_bot 7 = Some \<lparr>currentReceipt = Some (str ''food'')\<rparr>
 \<and> selected \<lparr>currentReceipt = Some (str ''food'')\<rparr> = Some (str ''food'')
 \<and> receipts example_bot (str ''food'') = Some \<lparr>receipt_name = str ''food'', entries = [milk, bread]\<rparr>
 \<and> current_command \<lparr>from_id = Some 7, message_text = Some (str ''/current'')\<rparr> example_bot
     = ([str ''**Receipt: food**'' @ [10, 10] @ str ''```'' @ [10] @
         str ''- milk -25 [2024-01-01]'' @ [10] @ str ''- bread -15 [2024-01-01]'' @ [10] @
         [10] @ str ''Total: -40'' @ [10] @ str ''```''], example_bot)
 \<and> fst (on_text (\<lambda>_ _. True) (\<lambda>_ _. True) (str ''t3'') en_US (str ''tea +4'')
        \<lparr>store = example_db, selectedAccountId = Some (str ''a1''), awaitingAccountCreation = False\<rparr>)
     = Inr [emoji_loss @ str '' -25  \"milk\"'' @ [10] @ emoji_loss @ str '' -15  \"bread\"'' @ [10] @
            emoji_gain @ str '' +4  \"tea\"'' @ [10, 10] @ emoji_total_down @ str '' Total: -36'']
 \<and> (\<exists>ts. ts \<noteq> [] \<and>
        emoji_loss @ str '' -25  \"milk\"'' @ [10] @ emoji_loss @ str '' -15  \"bread\"'' @ [10] @
        emoji_gain @ str '' +4  \"tea\"'' @ [10, 10] @ emoji_total_down @ str '' Total: -36''
          = parseTransactions en_US ts)"
proof -
  let ?c8 = "\<lparr>from_id = Some 8, message_text = Some (str ''/current'')\<rparr>"
  let ?c7 = "\<lparr>from_id = Some 7, message_text = Some (str ''/current'')\<rparr>"
  let ?food = "\<lparr>receipt_name = str ''food'', entries = [milk, bread]\<rparr>"
  let ?m = "\<lparr>store = example_db, selectedAccountId = Some (str ''a1''), awaitingAccountCreation = False\<rparr>"
  let ?report = "emoji_loss @ str '' -25  \"milk\"'' @ [10] @ emoji_loss @ str '' -15  \"bread\"'' @ [10] @
            emoji_gain @ str '' +4  \"tea\"'' @ [10, 10] @ emoji_total_down @ str '' Total: -36''"
  have o: "fst (on_text (\<lambda>_ _. True) (\<lambda>_ _. True) (str ''t3'') en_US (str ''tea +4'') ?m)
      = Inr [?report]"
    by (simp add: on_text_def parseMessage_def pattern_match_def amount_first_def label_first_def
        trailing_def greedy_plus_def lazy_plus_def greedy_opt_def one_of_def parseInt_def decimal_def
        digit_val_def parse_magnitude_def parseInt_capture_def string_eval round_double_numeral
        createTransaction_def getTransactionInAccount_def selectAccountById_def
        selectTransactionsByAccount_def example_db_def blank_def Let_def
        parseTransactions_def entry_line_def number_eval)
  note A = empty_receipt_rendering[of ?c8 8 example_bot "\<lparr>currentReceipt = Some (str ''home'')\<rparr>"
      "str ''home''" ?food milk example_bot "str ''food''" en_US "\<lambda>_ _. True" "\<lambda>_ _. True"
      "str ''t3''" "str ''tea +4''" ?m "[?report]"]
  note B = empty_receipt_rendering[of ?c7 7 example_bot "\<lparr>currentReceipt = Some (str ''food'')\<rparr>"
      "str ''food''" ?food milk example_bot "str ''food''" en_US "\<lambda>_ _. True" "\<lambda>_ _. True"
      "str ''t3''" "str ''tea +4''" ?m "[?report]"]
  have h8: "userSessions example_bot 8 = Some \<lparr>currentReceipt = Some (str ''home'')\<rparr>"
    "selected \<lparr>currentReceipt = Some (str ''home'')\<rparr> = Some (str ''home'')"
    "entries_of example_bot (str ''home'') = []"
    "from_id ?c8 = Some 8" "(8::int) \<noteq> 0"
    by (simp_all add: example_bot_def selected_def entries_of_def str_def)
  have h7: "userSessions example_bot 7 = Some \<lparr>currentReceipt = Some (str ''food'')\<rparr>"
    "selected \<lparr>currentReceipt = Some (str ''food'')\<rparr> = Some (str ''food'')"
    "receipts example_bot (str ''food'') = Some ?food" "entries ?food \<noteq> []"
    "from_id ?c7 = Some 7" "(7::int) \<noteq> 0"
    by (simp_all add: example_bot_def selected_def str_def)
  from A h8 have 1: "current_command ?c8 example_bot =
        ([[55357, 56523] @ str '' Current receipt: \"'' @ str ''home'' @ str ''\"'' @ [10] @
          str ''No entries yet.''], example_bot)"
    by blast
  from B h7 have "current_command ?c7 example_bot =
        ([str ''**Receipt: '' @ str ''food'' @ str ''**'' @ [10, 10] @ str ''```'' @ [10] @
          concat (map format_entry (entries ?food)) @ [10] @ str ''Total: '' @
          (if num_ge0 (foldl num_add (Fin 0) (map entry_amount (entries ?food))) then str ''+'' else []) @
          Number_toString (foldl num_add (Fin 0) (map entry_amount (entries ?food))) @ [10] @
          str ''```''], example_bot)"
    by blast
  then have 2: "current_command ?c7 example_bot
     = ([str ''**Receipt: food**'' @ [10, 10] @ str ''```'' @ [10] @
         str ''- milk -25 [2024-01-01]'' @ [10] @ str ''- bread -15 [2024-01-01]'' @ [10] @
         [10] @ str ''Total: -40'' @ [10] @ str ''```''], example_bot)"
    by (simp add: format_entry_def milk_def bread_def round_double_numeral number_eval str_def)
  from A o have "[?report] = [[9989] @ str '' Account \"'' @ str ''tea +4'' @ str ''\" created successfully.'']
      \<or> [?report] = [[10060] @ str '' Failed to create account!'']
      \<or> [?report] = [str ''No account selected'']
      \<or> [?report] = [invalid_format_message]
      \<or> (\<exists>ts. ts \<noteq> [] \<and> [?report] = [parseTransactions en_US ts])"
    by blast
  then have 3: "\<exists>ts. ts \<noteq> [] \<and> ?report = parseTransactions en_US ts"
    by (simp add: emoji_loss_def invalid_format_message_def str_def)
  from 1 have s1: "current_command ?c8 example_bot
     = ([[55357, 56523] @ str '' Current receipt: \"home\"'' @ [10] @ str ''No entries yet.''],
        example_bot)"
    by (simp add: str_def)
  from s1 2 3 o h8 h7 show ?thesis by blast
qed

text \<open>
  Counterexample to C7 as stated: for an account without rows, the report of the
  persisted bot is the empty listing followed by the total line, \<open>Total: +0\<close> in the
  en-US rendering; it has no message of its own for that case.
\<close>

theorem empty_listing_counterexample:
  "parseTransactions en_US [] = [10, 10] @ emoji_total_up @ str '' Total: +0''"
  by (simp add: parseTransactions_def number_eval str_def)
section \<open>Validation in the store\<close>

text \<open>
  Claim C8, amended. \<open>createAccount\<close> with an empty or blank name, and
  \<open>createTransaction\<close> with an empty or blank label, an amount that is NaN, or an
  empty or blank account id, fail with a validation error and leave both tables as
  they were: the check comes before the insert. Every other input passes validation,
  whatever the amount: an infinite or a fractional amount is not rejected, and an
  error for it can only be a missing account or a failed insert.
\<close>

theorem validation_before_insert:
  "(blank name \<longrightarrow> createAccount accepts new_id name d = (Inl EmptyAccountName, d))
 \<and> (blank (p_label p) \<or> isNaN (p_amount p) \<or> blank (p_accountId p) \<longrightarrow>
       (\<exists>e. createTransaction accepts' new_id p d = (Inl e, d) \<and> is_validation_error e))
 \<and> (\<not> blank name \<longrightarrow>
       (\<forall>e. fst (createAccount accepts new_id name d) = Inl e \<longrightarrow> \<not> is_validation_error e))
 \<and> (\<not> blank (p_label p) \<and> \<not> isNaN (p_amount p) \<and> \<not> blank (p_accountId p) \<longrightarrow>
       (\<forall>e. fst (createTransaction accepts' new_id p d) = Inl e \<longrightarrow> \<not> is_validation_error e))"
  by (auto simp: createAccount_def createTransaction_def Let_def split: option.splits)

text \<open>
  Witness for C8: a name of two blanks and a transaction with the amount NaN are
  refused with the example database unchanged; a transaction with a blank label
  likewise; a proper name passes.
\<close>

theorem validation_before_insert_witness:
  "blank (str ''  '')
 \<and> createAccount (\<lambda>_ _. True) (str ''a2'') (str ''  '') example_db = (Inl EmptyAccountName, example_db)
 \<and> isNaN NaN
 \<and> createTransaction (\<lambda>_ _. True) (str ''a2'')
      \<lparr>p_label = str ''tea'', p_amount = NaN, p_accountId = str ''a1''\<rparr> example_db
     = (Inl InvalidAmount, example_db)
 \<and> is_validation_error InvalidAmount
 \<and> \<not> blank (str ''home'')
 \<and> createAccount (\<lambda>_ _. True) (str ''a2'') (str ''home'') example_db
     = (Inr \<lparr>a_id = str ''a2'', a_name = str ''home''\<rparr>,
        example_db\<lparr>Accounts := Accounts example_db @ [\<lparr>a_id = str ''a2'', a_name = str ''home''\<rparr>]\<rparr>)
 \<and> \<not> blank (str ''tea'') \<and> \<not> isNaN (Fin 4) \<and> \<not> blank (str ''zz'')
 \<and> fst (createTransaction (\<lambda>_ _. True) (str ''a2'')
      \<lparr>p_label = str ''tea'', p_amount = Fin 4, p_accountId = str ''zz''\<rparr> example_db)
     = Inl (AccountNotFound (str ''zz''))"
  using validation_before_insert[of "str ''  ''" "\<lambda>_ _. True" "str ''a2''" example_db
      "\<lparr>p_label = str ''tea'', p_amount = NaN, p_accountId = str ''a1''\<rparr>" "\<lambda>_ _. True"]
    validation_before_insert[of "str ''home''" "\<lambda>_ _. True" "str ''a2''" example_db
      "\<lparr>p_label = str ''tea'', p_amount = Fin 4, p_accountId = str ''zz''\<rparr>" "\<lambda>_ _. True"]
  by (simp add: createAccount_def createTransaction_def selectAccountById_def example_db_def
      blank_def Let_def string_eval)

text \<open>
  Counterexample to C8 as stated: for the existing account \<open>a1\<close>, an amount of 5/2
  and an infinite amount both pass the checks, and the row is inserted.
\<close>

theorem fractional_amount_counterexample:
  "createTransaction (\<lambda>_ _. True) (str ''t3'')
      \<lparr>p_label = str ''tea'', p_amount = Fin (5 / 2), p_accountId = str ''a1''\<rparr> example_db
     = (Inr \<lparr>t_id = str ''t3'', t_label = str ''tea'', t_amount = Fin (5 / 2), t_account = str ''a1''\<rparr>,
        example_db\<lparr>Transactions := Transactions example_db @
          [\<lparr>t_id = str ''t3'', t_label = str ''tea'', t_amount = Fin (5 / 2), t_account = str ''a1''\<rparr>]\<rparr>)
 \<and> createTransaction (\<lambda>_ _. True) (str ''t3'')
      \<lparr>p_label = str ''tea'', p_amount = PosInf, p_accountId = str ''a1''\<rparr> example_db
     = (Inr \<lparr>t_id = str ''t3'', t_label = str ''tea'', t_amount = PosInf, t_account = str ''a1''\<rparr>,
        example_db\<lparr>Transactions := Transactions example_db @
          [\<lparr>t_id = str ''t3'', t_label = str ''tea'', t_amount = PosInf, t_account = str ''a1''\<rparr>]\<rparr>)
 \<and> (5 / 2 :: rat) \<notin> \<int>"
proof -
  have "(5 / 2 :: rat) \<notin> \<int>"
  proof
    assume "(5 / 2 :: rat) \<in> \<int>"
    then obtain k :: int where "(5 / 2 :: rat) = of_int k" by (auto elim: Ints_cases)
    then have "(5 :: rat) = of_int (2 * k)" by simp
    then have "(5 :: int) = 2 * k" by (metis of_int_eq_iff of_int_numeral)
    then show False by presburger
  qed
  then show ?thesis
    by (simp add: createTransaction_def selectAccountById_def example_db_def
        blank_def Let_def string_eval)
qed

section \<open>Deleting a receipt\<close>

text \<open>
  Claim C9, amended. When \<open>/delete\<close> names an existing receipt, the receipt is
  removed from the store and no other receipt changes. If the sender has a non-zero
  id (as every user whom the bot gives a session has) and the receipt was the
  sender's active receipt, the sender's active receipt becomes none; otherwise it
  stays what it was. No other user's session changes: a user other than the sender
  whose active receipt is the deleted one keeps that reference. Without a sender id
  no session changes at all.
\<close>

theorem delete_clears_sender_reference:
  assumes args: "command_args c \<noteq> []"
    and n: "n = join (str ''_'') (command_args c)"
    and ex: "receipts st n \<noteq> None"
  shows "receipts (snd (delete_command c st)) n = None
       \<and> (\<forall>m. m \<noteq> n \<longrightarrow> receipts (snd (delete_command c st)) m = receipts st m)
       \<and> (from_id c = Some userId \<and> userId \<noteq> 0 \<longrightarrow>
            active (snd (delete_command c st)) userId =
              (if active st userId = Some n then None else active st userId))
       \<and> (\<forall>u. from_id c \<noteq> Some u \<longrightarrow> active (snd (delete_command c st)) u = active st u)
       \<and> (from_id c = None \<or> from_id c = Some 0 \<longrightarrow>
            userSessions (snd (delete_command c st)) = userSessions st)"
  using assms
  by (auto simp: delete_command_def Let_def getUserSession_def active_def split: option.splits)

text \<open>
  The handlers modelled here create a session only for a sender with a non-zero id
  (\<open>if (!userId) return\<close>, \<open>if (userId)\<close>): no state they reach has a session for
  the id 0.
\<close>

lemma no_session_for_id_zero:
  assumes "userSessions st 0 = None"
  shows "userSessions (snd (new_command c st)) 0 = None"
    and "userSessions (snd (delete_command c st)) 0 = None"
    and "userSessions (snd (current_command c st)) 0 = None"
    and "userSessions (snd (clear_command c st)) 0 = None"
    and "userSessions (snd (text_handler d c st)) 0 = None"
  using assms
  by (auto simp: new_command_def delete_command_def current_command_def clear_command_def
      text_handler_def getUserSession_def getReceipt_def addEntriesToReceipt_def Let_def
      split: option.splits sum.splits prod.splits if_splits)

text \<open>
  Witness for C9: user 7, whose active receipt is \<open>food\<close>, deletes \<open>food\<close> and has no
  active receipt afterwards, while user 8 keeps the active receipt \<open>home\<close>; user 7
  deletes \<open>home\<close> and keeps \<open>food\<close>; a \<open>/delete food\<close> without a sender removes the
  receipt and leaves every session as it was.
\<close>

theorem delete_clears_sender_reference_witness:
  "command_args \<lparr>from_id = Some 7, message_text = Some (str ''/delete food'')\<rparr> = [str ''food'']
 \<and> receipts example_bot (str ''food'') \<noteq> None
 \<and> active example_bot 7 = Some (str ''food'')
 \<and> receipts (snd (delete_command \<lparr>from_id = Some 7, message_text = Some (str ''/delete food'')\<rparr>
        example_bot)) (str ''food'') = None
 \<and> active (snd (delete_command \<lparr>from_id = Some 7, message_text = Some (str ''/delete food'')\<rparr>
        example_bot)) 7 = None
 \<and> active (snd (delete_command \<lparr>from_id = Some 7, message_text = Some (str ''/delete food'')\<rparr>
        example_bot)) 8 = Some (str ''home'')
 \<and> receipts (snd (delete_command \<lparr>from_id = Some 7, message_text = Some (str ''/delete home'')\<rparr>
        example_bot)) (str ''home'') = None
 \<and> active (snd (delete_command \<lparr>from_id = Some 7, message_text = Some (str ''/delete home'')\<rparr>
        example_bot)) 7 = Some (str ''food'')
 \<and> receipts (snd (delete_command \<lparr>from_id = None, message_text = Some (str ''/delete food'')\<rparr>
        example_bot)) (str ''food'') = None
 \<and> userSessions (snd (delete_command \<lparr>from_id = None, message_text = Some (str ''/delete food'')\<rparr>
        example_bot)) = userSessions example_bot"
proof -
  let ?cf = "\<lparr>from_id = Some 7, message_text = Some (str ''/delete food'')\<rparr>"
  let ?ch = "\<lparr>from_id = Some 7, message_text = Some (str ''/delete home'')\<rparr>"
  have a: "command_args ?cf = [str ''food'']" "command_args ?ch = [str ''home'']"
    by (simp_all add: command_args_def str_def)
  have n: "str ''food'' = join (str ''_'') (command_args ?cf)"
    "str ''home'' = join (str ''_'') (command_args ?ch)"
    unfolding a by simp_all
  have ne: "command_args ?cf \<noteq> []" "command_args ?ch \<noteq> []" unfolding a by simp_all
  have ex: "receipts example_bot (str ''food'') \<noteq> None" "receipts example_bot (str ''home'') \<noteq> None"
    by (simp_all add: example_bot_def str_def)
  have act: "active example_bot 7 = Some (str ''food'')" "active example_bot 8 = Some (str ''home'')"
    "from_id ?cf = Some 7" "from_id ?ch = Some 7" "(7::int) \<noteq> 0" "from_id ?cf \<noteq> Some 8"
    "str ''food'' \<noteq> str ''home''"
    by (simp_all add: example_bot_def active_def str_def)
  note F = delete_clears_sender_reference[OF ne(1) n(1) ex(1), of 7]
  note H = delete_clears_sender_reference[OF ne(2) n(2) ex(2), of 7]
  from F have 1: "receipts (snd (delete_command ?cf example_bot)) (str ''food'') = None" by blast
  from F act have "active (snd (delete_command ?cf example_bot)) 7 =
      (if active example_bot 7 = Some (str ''food'') then None else active example_bot 7)" by blast
  with act have 2: "active (snd (delete_command ?cf example_bot)) 7 = None" by simp
  from F act have "active (snd (delete_command ?cf example_bot)) 8 = active example_bot 8" by blast
  with act have 3: "active (snd (delete_command ?cf example_bot)) 8 = Some (str ''home'')" by simp
  from H have 4: "receipts (snd (delete_command ?ch example_bot)) (str ''home'') = None" by blast
  from H act have "active (snd (delete_command ?ch example_bot)) 7 =
      (if active example_bot 7 = Some (str ''home'') then None else active example_bot 7)" by blast
  with act have 5: "active (snd (delete_command ?ch example_bot)) 7 = Some (str ''food'')" by simp
  let ?cn = "\<lparr>from_id = None, message_text = Some (str ''/delete food'')\<rparr>"
  have an: "command_args ?cn = [str ''food'']" by (simp add: command_args_def str_def)
  have nn: "str ''food'' = join (str ''_'') (command_args ?cn)" "command_args ?cn \<noteq> []"
    "from_id ?cn = None"
    unfolding an by simp_all
  note N = delete_clears_sender_reference[OF nn(2) nn(1) ex(1), of 7]
  from N have 6: "receipts (snd (delete_command ?cn example_bot)) (str ''food'') = None" by blast
  from N nn(3) have 7: "userSessions (snd (delete_command ?cn example_bot)) = userSessions example_bot"
    by blast
  from a(1) ex(1) act(1) 1 2 3 4 5 6 7 show ?thesis by blast
qed

text \<open>
  Counterexample to C9 as stated: in the example store user 8 has the receipt \<open>home\<close>
  active; after user 7 has deleted \<open>home\<close>, the receipt is gone and user 8 still has
  it as the active receipt.
\<close>

theorem dangling_reference_counterexample:
  "active example_bot 8 = Some (str ''home'')
 \<and> receipts (snd (delete_command \<lparr>from_id = Some 7, message_text = Some (str ''/delete home'')\<rparr>
        example_bot)) (str ''home'') = None
 \<and> active (snd (delete_command \<lparr>from_id = Some 7, message_text = Some (str ''/delete home'')\<rparr>
        example_bot)) 8 = Some (str ''home'')"
  by (simp add: delete_command_def command_args_def example_bot_def active_def getUserSession_def
      Let_def str_def)
section \<open>The parsers\<close>

lemmas parser_eval = parseMessage_def pattern_match_def amount_first_def label_first_def
  trailing_def greedy_plus_def lazy_plus_def greedy_opt_def one_of_def parseInt_def decimal_def
  digit_val_def parse_magnitude_def parseInt_capture_def round_double_numeral string_eval

lemmas entry_eval = parseFinancialEntries_def entry_pattern_def entry_pattern_at_def
  greedy_plus_def lazy_plus_def one_of_def parseInt_def decimal_def
  digit_val_def parse_magnitude_def parseInt_capture_def round_double_numeral string_eval

lemma trim_prepend_ws: "\<forall>c\<in>set w. is_ws c \<Longrightarrow> trim (w @ s) = trim s"
proof -
  assume "\<forall>c\<in>set w. is_ws c"
  then have "dropWhile is_ws (w @ s) = dropWhile is_ws s"
    by (intro dropWhile_append2) auto
  then show ?thesis by (simp only: trim_def)
qed

lemma amount_first_reading_decomp:
  assumes t: "t = sg @ ds @ ws @ lbl"
    and sg: "sg = [] \<or> sg = str ''+'' \<or> sg = str ''-''"
    and ds: "ds \<noteq> []" "\<forall>c\<in>set ds. is_digit c"
    and ws: "ws \<noteq> []" "\<forall>c\<in>set ws. is_ws c"
  shows "amount_first_reading t =
           \<lparr>label = trim lbl, sign = (if sg = str ''-'' then Negative else Positive),
            amount = round_double (of_int (decimal ds))\<rparr>"
proof -
  from ws obtain w ws' where w: "ws = w # ws'" "is_ws w" by (cases ws) auto
  then have nd: "\<not> is_digit (hd (ws @ lbl))" using digit_not_ws by auto
  have tk: "takeWhile is_digit (ds @ ws @ lbl) = ds"
    using ds nd w by (intro takeWhile_all) auto
  have dr: "dropWhile is_digit (ds @ ws @ lbl) = ws @ lbl"
    using ds nd w by (intro dropWhile_all) auto
  from ds obtain d0 ds' where d0: "ds = d0 # ds'" "is_digit d0" by (cases ds) auto
  then have ns: "\<not> is_sign d0" using sign_not_digit by auto
  show ?thesis
  proof (cases "sg = []")
    case True
    with t d0 ns have "amount_first_reading t =
        \<lparr>label = trim (dropWhile is_digit (ds @ ws @ lbl)), sign = Positive,
         amount = round_double (of_int (decimal (takeWhile is_digit (ds @ ws @ lbl))))\<rparr>"
      by (simp add: amount_first_reading_def str_def)
    with True show ?thesis
      unfolding tk dr using trim_prepend_ws[OF ws(2)] by (simp add: str_def)
  next
    case False
    with sg obtain c where c: "sg = [c]" "is_sign c" by (auto simp: str_def is_sign_def)
    with t have "amount_first_reading t =
        \<lparr>label = trim (dropWhile is_digit (ds @ ws @ lbl)),
         sign = (if sg = str ''-'' then Negative else Positive),
         amount = round_double (of_int (decimal (takeWhile is_digit (ds @ ws @ lbl))))\<rparr>"
      by (simp add: amount_first_reading_def)
    then show ?thesis
      unfolding tk dr using trim_prepend_ws[OF ws(2)] by simp
  qed
qed

lemma single_line:
  "10 \<notin> set line \<Longrightarrow> parseFinancialEntries d line = Inr (line_entries d line)"
  by (simp add: parseFinancialEntries_lines split_on_single)

lemma decimal_nonneg: "\<forall>c\<in>set ds. is_digit c \<Longrightarrow> 0 \<le> a \<Longrightarrow> 0 \<le> foldl (\<lambda>a c. 10 * a + digit_val c) a ds"
proof (induction ds arbitrary: a)
  case Nil
  then show ?case by simp
next
  case (Cons c cs)
  from Cons.prems have "0 \<le> digit_val c" by (simp add: is_digit_def digit_val_def)
  with Cons.prems have "0 \<le> 10 * a + digit_val c" by simp
  with Cons.IH[of "10 * a + digit_val c"] Cons.prems show ?case by simp
qed

text \<open>
  Claim C1, amended. \<open>parseMessage\<close> returns the amount as a magnitude and the sign in
  a field of its own. For every line whose trimmed text is an optional sign, digits,
  white space and a label, it returns the trimmed label, the number the digits denote
  and the sign (negative exactly for \<open>-\<close>). For every line whose trimmed text is a
  label, white space, a sign and digits, and which does not have the amount-first
  form as well, it returns the trimmed label, the number the digits denote and the
  sign. \<open>parseFinancialEntries\<close> reads the label-first form only: for a line that is
  a label, white space, a sign and digits, where no sign directly followed by a digit
  occurs in the label after its first character, it returns one entry with the
  trimmed label and the signed number. The number the digits denote is the double
  nearest to their value, which is the value itself when that is at most \<open>2^53\<close>.
\<close>

theorem well_formed_lines_parse:
  assumes ds: "ds \<noteq> []" "\<forall>c\<in>set ds. is_digit c"
    and ws: "ws \<noteq> []" "\<forall>c\<in>set ws. is_ws c"
    and lbl: "lbl \<noteq> []" "\<forall>c\<in>set lbl. is_dot c"
  shows "(trim t = sg @ ds @ ws @ lbl \<and> (sg = [] \<or> sg = str ''+'' \<or> sg = str ''-'') \<longrightarrow>
            parseMessage t =
              Inr (Some \<lparr>label = trim lbl,
                         sign = (if sg = str ''-'' then Negative else Positive),
                         amount = round_double (of_int (decimal ds))\<rparr>))
       \<and> (trim t = lbl @ ws @ sg @ ds \<and> (sg = str ''+'' \<or> sg = str ''-'') \<and>
            \<not> amount_first_form (trim t) \<longrightarrow>
            parseMessage t =
              Inr (Some \<lparr>label = trim lbl,
                         sign = (if sg = str ''+'' then Positive else Negative),
                         amount = round_double (of_int (decimal ds))\<rparr>))
       \<and> ((sg = str ''+'' \<or> sg = str ''-'') \<and> \<not> has_signed_number lbl \<and>
            (\<exists>c\<in>set lbl. \<not> is_ws c) \<and> 10 \<notin> set ws \<longrightarrow>
            parseFinancialEntries d (lbl @ ws @ sg @ ds) =
              Inr [\<lparr>description = trim lbl,
                    entry_amount = round_double (of_int (if sg = str ''-'' then - decimal ds else decimal ds)),
                    date = d\<rparr>])
       \<and> (decimal ds \<le> 2 ^ 53 \<longrightarrow>
            round_double (of_int (decimal ds)) = Fin (of_int (decimal ds)) \<and>
            round_double (of_int (- decimal ds)) = Fin (of_int (- decimal ds)))"
proof (intro conjI impI)
  assume a: "trim t = sg @ ds @ ws @ lbl \<and> (sg = [] \<or> sg = str ''+'' \<or> sg = str ''-'')"
  then have 1: "trim t = sg @ ds @ ws @ lbl" and 2: "sg = [] \<or> sg = str ''+'' \<or> sg = str ''-''"
    by simp_all
  show "parseMessage t =
              Inr (Some \<lparr>label = trim lbl,
                         sign = (if sg = str ''-'' then Negative else Positive),
                         amount = round_double (of_int (decimal ds))\<rparr>)"
    by (rule parseMessage_amount_first[OF 1 2 ds ws lbl])
next
  assume a: "trim t = lbl @ ws @ sg @ ds \<and> (sg = str ''+'' \<or> sg = str ''-'') \<and>
            \<not> amount_first_form (trim t)"
  then have 1: "trim t = lbl @ ws @ sg @ ds" and 2: "sg = str ''+'' \<or> sg = str ''-''"
    and 3: "\<not> amount_first_form (trim t)"
    by blast+
  show "parseMessage t =
              Inr (Some \<lparr>label = trim lbl,
                         sign = (if sg = str ''+'' then Positive else Negative),
                         amount = round_double (of_int (decimal ds))\<rparr>)"
    by (rule parseMessage_label_first[OF 1 lbl ws 2 ds 3])
next
  assume a: "(sg = str ''+'' \<or> sg = str ''-'') \<and> \<not> has_signed_number lbl \<and>
            (\<exists>c\<in>set lbl. \<not> is_ws c) \<and> 10 \<notin> set ws"
  then have 1: "sg = str ''+'' \<or> sg = str ''-''" and 2: "\<not> has_signed_number lbl"
    and 3: "\<exists>c\<in>set lbl. \<not> is_ws c" and 4: "10 \<notin> set ws"
    by simp_all
  have l10: "10 \<notin> set lbl" using lbl(2) by (auto simp: is_dot_def is_line_terminator_def)
  have d10: "10 \<notin> set ds" using ds(2) by (auto simp: is_digit_def)
  have r: "[] = [] \<or> \<not> is_digit (hd ([] :: jsstring))" by simp
  show "parseFinancialEntries d (lbl @ ws @ sg @ ds) =
              Inr [\<lparr>description = trim lbl,
                    entry_amount = round_double (of_int (if sg = str ''-'' then - decimal ds else decimal ds)),
                    date = d\<rparr>]"
  proof (cases "sg = str ''-''")
    case True
    have s: "is_sign 45" by (simp add: is_sign_def)
    have e: "lbl @ ws @ sg @ ds = lbl @ ws @ 45 # ds @ []" using True by (simp add: str_def)
    have "10 \<notin> set (lbl @ ws @ 45 # ds @ [])" using l10 d10 4 by simp
    from single_line[OF this, of d] line_entries_label_first[OF lbl(2) 2 3 ws(2) s ds r, of d]
    show ?thesis unfolding e using True by simp
  next
    case False
    with 1 have p: "sg = str ''+''" by simp
    have s: "is_sign 43" by (simp add: is_sign_def)
    have e: "lbl @ ws @ sg @ ds = lbl @ ws @ 43 # ds @ []" using p by (simp add: str_def)
    have "10 \<notin> set (lbl @ ws @ 43 # ds @ [])" using l10 d10 4 by simp
    from single_line[OF this, of d] line_entries_label_first[OF lbl(2) 2 3 ws(2) s ds r, of d]
    show ?thesis unfolding e using False by simp
  qed
next
  assume b: "decimal ds \<le> 2 ^ 53"
  have "0 \<le> decimal ds" unfolding decimal_def by (rule decimal_nonneg[OF ds(2)]) simp
  with b have "\<bar>decimal ds\<bar> \<le> 2 ^ 53" "\<bar>- decimal ds\<bar> \<le> 2 ^ 53" by simp_all
  then show "round_double (of_int (decimal ds)) = Fin (of_int (decimal ds))"
    and "round_double (of_int (- decimal ds)) = Fin (of_int (- decimal ds))"
    by (simp_all only: round_double_int)
qed

text \<open>
  Witness for C1: \<open>-3000 rent\<close> and \<open>rent -3000\<close> are both read by \<open>parseMessage\<close>
  as the label \<open>rent\<close> with the sign negative and the amount 3000; the second line
  does not have the amount-first form; \<open>parseFinancialEntries\<close> reads it as the
  entry \<open>rent\<close> with the amount -3000, and \<open>t-shirt -30\<close>, whose label holds a sign
  that no digit follows, as the entry \<open>t-shirt\<close> with the amount -30.
\<close>

theorem well_formed_lines_parse_witness:
  "trim (str ''-3000 rent'') = str ''-'' @ str ''3000'' @ str '' '' @ str ''rent''
 \<and> parseMessage (str ''-3000 rent'')
     = Inr (Some \<lparr>label = str ''rent'', sign = Negative, amount = Fin 3000\<rparr>)
 \<and> trim (str ''rent -3000'') = str ''rent'' @ str '' '' @ str ''-'' @ str ''3000''
 \<and> \<not> amount_first_form (trim (str ''rent -3000''))
 \<and> parseMessage (str ''rent -3000'')
     = Inr (Some \<lparr>label = str ''rent'', sign = Negative, amount = Fin 3000\<rparr>)
 \<and> parseFinancialEntries (str ''2024-01-01'') (str ''rent -3000'') = Inr [rent]
 \<and> \<not> has_signed_number (str ''t-shirt'')
 \<and> parseFinancialEntries (str ''2024-01-01'') (str ''t-shirt -30'')
     = Inr [\<lparr>description = str ''t-shirt'', entry_amount = Fin (- 30), date = str ''2024-01-01''\<rparr>]
 \<and> decimal (str ''3000'') = 3000 \<and> (3000 :: int) \<le> 2 ^ 53
 \<and> round_double (of_int 3000) = Fin 3000"
proof -
  have ds: "str ''3000'' \<noteq> []" "\<forall>c\<in>set (str ''3000''). is_digit c"
    "str ''30'' \<noteq> []" "\<forall>c\<in>set (str ''30''). is_digit c"
    by (simp_all add: string_eval)
  have ws: "str '' '' \<noteq> []" "\<forall>c\<in>set (str '' ''). is_ws c"
    by (simp_all add: string_eval)
  have lbl: "str ''rent'' \<noteq> []" "\<forall>c\<in>set (str ''rent''). is_dot c"
    "str ''t-shirt'' \<noteq> []" "\<forall>c\<in>set (str ''t-shirt''). is_dot c"
    by (simp_all add: string_eval)
  have lbl': "\<not> has_signed_number (str ''rent'')" "\<exists>c\<in>set (str ''rent''). \<not> is_ws c"
    "10 \<notin> set (str '' '')"
    "\<not> has_signed_number (str ''t-shirt'')" "\<exists>c\<in>set (str ''t-shirt''). \<not> is_ws c"
    by (simp_all add: string_eval)
  have sg: "str ''-'' = [] \<or> str ''-'' = str ''+'' \<or> str ''-'' = str ''-''"
    "str ''-'' = str ''+'' \<or> str ''-'' = str ''-''"
    by simp_all
  have t1: "trim (str ''-3000 rent'') = str ''-'' @ str ''3000'' @ str '' '' @ str ''rent''"
    by (simp add: string_eval)
  have t2: "trim (str ''rent -3000'') = str ''rent'' @ str '' '' @ str ''-'' @ str ''3000''"
    by (simp add: string_eval)
  have naf: "\<not> amount_first_form (trim (str ''rent -3000''))"
    using amount_first_iff[OF trimmed_trim, of "str ''rent -3000''"]
    by (simp add: parser_eval)
  have v: "trim (str ''rent'') = str ''rent''" "decimal (str ''3000'') = 3000"
    "str ''rent'' @ str '' '' @ str ''-'' @ str ''3000'' = str ''rent -3000''"
    "str ''-'' \<noteq> str ''+''"
    "trim (str ''t-shirt'') = str ''t-shirt''" "decimal (str ''30'') = 30"
    "str ''t-shirt'' @ str '' '' @ str ''-'' @ str ''30'' = str ''t-shirt -30''"
    by (simp_all add: decimal_def digit_val_def string_eval)
  have b: "decimal (str ''3000'') \<le> 2 ^ 53" unfolding v by simp
  note T = well_formed_lines_parse[OF ds(1,2) ws lbl(1,2)]
  note S = well_formed_lines_parse[OF ds(3,4) ws lbl(3,4)]
  from T[of "str ''-3000 rent''" "str ''-''"] b
  have e: "round_double (of_int (decimal (str ''3000''))) = Fin (of_int (decimal (str ''3000'')))"
    "round_double (of_int (- decimal (str ''3000''))) = Fin (of_int (- decimal (str ''3000'')))"
    by blast+
  from T[of "str ''-3000 rent''" "str ''-''"] t1 sg
  have "parseMessage (str ''-3000 rent'')
     = Inr (Some \<lparr>label = trim (str ''rent''),
                 sign = (if str ''-'' = str ''-'' then Negative else Positive),
                 amount = round_double (of_int (decimal (str ''3000'')))\<rparr>)"
    by blast
  then have p1: "parseMessage (str ''-3000 rent'')
     = Inr (Some \<lparr>label = str ''rent'', sign = Negative, amount = Fin 3000\<rparr>)"
    unfolding e unfolding v by simp
  from T[of "str ''rent -3000''" "str ''-''"] t2 sg naf
  have "parseMessage (str ''rent -3000'')
     = Inr (Some \<lparr>label = trim (str ''rent''),
                 sign = (if str ''-'' = str ''+'' then Positive else Negative),
                 amount = round_double (of_int (decimal (str ''3000'')))\<rparr>)"
    by blast
  then have p2: "parseMessage (str ''rent -3000'')
     = Inr (Some \<lparr>label = str ''rent'', sign = Negative, amount = Fin 3000\<rparr>)"
    unfolding e unfolding v by (simp add: v)
  from T[of _ "str ''-''" "str ''2024-01-01''"] sg lbl'
  have "parseFinancialEntries (str ''2024-01-01'') (str ''rent'' @ str '' '' @ str ''-'' @ str ''3000'')
     = Inr [\<lparr>description = trim (str ''rent''),
             entry_amount = round_double (of_int (if str ''-'' = str ''-'' then - decimal (str ''3000'')
                else decimal (str ''3000''))),
             date = str ''2024-01-01''\<rparr>]"
    by blast
  then have p3: "parseFinancialEntries (str ''2024-01-01'') (str ''rent -3000'') = Inr [rent]"
    unfolding v(3) by (simp add: v rent_def round_double_numeral)
  from S[of _ "str ''-''" "str ''2024-01-01''"] sg lbl'
  have "parseFinancialEntries (str ''2024-01-01'') (str ''t-shirt'' @ str '' '' @ str ''-'' @ str ''30'')
     = Inr [\<lparr>description = trim (str ''t-shirt''),
             entry_amount = round_double (of_int (if str ''-'' = str ''-'' then - decimal (str ''30'')
                else decimal (str ''30''))),
             date = str ''2024-01-01''\<rparr>]"
    by blast
  then have p4: "parseFinancialEntries (str ''2024-01-01'') (str ''t-shirt -30'')
     = Inr [\<lparr>description = str ''t-shirt'', entry_amount = Fin (- 30), date = str ''2024-01-01''\<rparr>]"
    unfolding v(7) by (simp add: v round_double_numeral)
  from e(1) have r: "round_double (of_int 3000) = Fin 3000" unfolding v by simp
  have c: "(3000 :: int) \<le> 2 ^ 53" by simp
  from t1 p1 t2 naf p2 p3 lbl'(4) p4 v(2) c r show ?thesis by blast
qed

text \<open>
  Counterexample to C1 as stated: for \<open>rent -3000\<close> the amount that \<open>parseMessage\<close>
  returns is 3000, not -3000; for \<open>9007199254740993 x\<close> it is 9007199254740992, not
  the value of the digits; the amount-first line \<open>+4000 salary\<close> gives no entry in
  \<open>parseFinancialEntries\<close>; and the label-first line \<open>a+5 b -3\<close>, whose label is
  \<open>a+5 b\<close>, gives the entry \<open>a\<close> with the amount 5 there.
\<close>

theorem signed_amount_counterexample:
  "parseMessage (str ''rent -3000'')
     = Inr (Some \<lparr>label = str ''rent'', sign = Negative, amount = Fin 3000\<rparr>)
 \<and> parseMessage (str ''9007199254740993 x'')
     = Inr (Some \<lparr>label = str ''x'', sign = Positive, amount = Fin 9007199254740992\<rparr>)
 \<and> decimal (str ''9007199254740993'') = 9007199254740993
 \<and> parseFinancialEntries (str ''2024-01-01'') (str ''+4000 salary'') = Inr []
 \<and> label_first_form (str ''a+5 b'' @ str '' '' @ str ''-'' @ str ''3'')
 \<and> parseFinancialEntries (str ''2024-01-01'') (str ''a+5 b'' @ str '' '' @ str ''-'' @ str ''3'')
     = Inr [\<lparr>description = str ''a'', entry_amount = Fin 5, date = str ''2024-01-01''\<rparr>]"
proof (intro conjI)
  show "parseMessage (str ''rent -3000'')
     = Inr (Some \<lparr>label = str ''rent'', sign = Negative, amount = Fin 3000\<rparr>)"
    by (simp add: parser_eval)
  show "parseMessage (str ''9007199254740993 x'')
     = Inr (Some \<lparr>label = str ''x'', sign = Positive, amount = Fin 9007199254740992\<rparr>)"
    by (simp add: parseMessage_def pattern_match_def amount_first_def label_first_def
        trailing_def greedy_plus_def lazy_plus_def greedy_opt_def one_of_def parseInt_def decimal_def
        digit_val_def parse_magnitude_def parseInt_capture_def round_double_odd string_eval)
  show "decimal (str ''9007199254740993'') = 9007199254740993"
    by (simp add: decimal_def digit_val_def str_def)
  show "parseFinancialEntries (str ''2024-01-01'') (str ''+4000 salary'') = Inr []"
    by (simp add: entry_eval)
  show "label_first_form (str ''a+5 b'' @ str '' '' @ str ''-'' @ str ''3'')"
    unfolding label_first_form_def
    by (intro exI[of _ "str ''a+5 b''"] exI[of _ "str '' ''"] exI[of _ "str ''-''"]
        exI[of _ "str ''3''"]) (simp add: string_eval)
  show "parseFinancialEntries (str ''2024-01-01'') (str ''a+5 b'' @ str '' '' @ str ''-'' @ str ''3'')
     = Inr [\<lparr>description = str ''a'', entry_amount = Fin 5, date = str ''2024-01-01''\<rparr>]"
    by (simp add: entry_eval)
qed

text \<open>
  Claim C6. Whenever the trimmed line has the amount-first form, the first
  alternative of the pattern matches and \<open>parseMessage\<close> returns the amount-first
  reading of the line: the sign and the digits at its start as the amount, the rest
  as the label. That holds whether or not the line has the label-first form as well.
\<close>

theorem amount_first_takes_priority:
  assumes "amount_first_form (trim t)"
  shows "amount_first (trim t) \<noteq> None
       \<and> parseMessage t = Inr (Some (amount_first_reading (trim t)))"
proof -
  from assms obtain sg ds ws lbl where d: "trim t = sg @ ds @ ws @ lbl"
        "sg = [] \<or> sg = str ''+'' \<or> sg = str ''-''"
        "ds \<noteq> []" "\<forall>c\<in>set ds. is_digit c" "ws \<noteq> []" "\<forall>c\<in>set ws. is_ws c"
        "lbl \<noteq> []" "\<forall>c\<in>set lbl. is_dot c"
    unfolding amount_first_form_def by blast
  have "amount_first (trim t) \<noteq> None"
    using assms amount_first_iff[OF trimmed_trim, of t] by simp
  moreover have "parseMessage t = Inr (Some (amount_first_reading (trim t)))"
    unfolding amount_first_reading_decomp[OF d(1-6)] by (rule parseMessage_amount_first[OF d])
  ultimately show ?thesis by simp
qed

text \<open>
  Witness for C6: the line \<open>5 apples -3\<close> has both forms, and is read amount-first.
\<close>

theorem amount_first_takes_priority_witness:
  "amount_first_form (trim (str ''5 apples -3''))
 \<and> label_first_form (trim (str ''5 apples -3''))
 \<and> amount_first_reading (trim (str ''5 apples -3''))
     = \<lparr>label = str ''apples -3'', sign = Positive, amount = Fin 5\<rparr>
 \<and> parseMessage (str ''5 apples -3'')
     = Inr (Some \<lparr>label = str ''apples -3'', sign = Positive, amount = Fin 5\<rparr>)"
proof -
  have af: "amount_first_form (trim (str ''5 apples -3''))"
    using amount_first_iff[OF trimmed_trim, of "str ''5 apples -3''"]
    by (simp add: parser_eval)
  have lf: "label_first_form (trim (str ''5 apples -3''))"
    using label_first_iff[OF trimmed_trim, of "str ''5 apples -3''"]
    by (simp add: parser_eval)
  have r: "amount_first_reading (trim (str ''5 apples -3''))
     = \<lparr>label = str ''apples -3'', sign = Positive, amount = Fin 5\<rparr>"
    by (simp add: amount_first_reading_def decimal_def digit_val_def round_double_numeral
        string_eval)
  from amount_first_takes_priority[OF af] af lf r show ?thesis by simp
qed

lemma line_entries_not_NaN: "e \<in> set (line_entries d line) \<Longrightarrow> entry_amount e \<noteq> NaN"
proof (cases "entry_pattern line")
  case None
  assume "e \<in> set (line_entries d line)"
  with None show ?thesis by (simp add: line_entries_def)
next
  case (Some m)
  assume e: "e \<in> set (line_entries d line)"
  from entry_pattern_ok[OF Some] obtain l c ds where
    m: "m1 m = Some l" "m2 m = Some (c # ds)" "is_sign c" "ds \<noteq> []" "\<forall>x\<in>set ds. is_digit x"
    by blast
  from e Some m have "entry_amount e = parseInt (c # ds)"
    by (auto simp: line_entries_def parseInt_capture_def)
  with parseInt_not_NaN[OF m(3-5)] show ?thesis by simp
qed

text \<open>
  Claim C3, amended. Both parsers are total and never raise: \<open>parseMessage\<close> returns a
  transaction or null, \<open>parseFinancialEntries\<close> returns a list of entries, and no
  amount they return is NaN. \<open>parseMessage\<close> returns null exactly for the lines
  whose trimmed text has neither the amount-first nor the label-first form.
  \<open>parseFinancialEntries\<close> returns the empty list for every
  text none of whose lines has a signed number (a sign directly followed by a digit,
  after the first character of the line); a line with a signed number can give an
  entry even when it has neither form.
\<close>

theorem parsing_is_total:
  "(\<exists>r. parseMessage t = Inr r)
 \<and> (parseMessage t = Inr None \<longleftrightarrow>
      \<not> amount_first_form (trim t) \<and> \<not> label_first_form (trim t))
 \<and> (\<exists>es. parseFinancialEntries d text = Inr es)
 \<and> ((\<forall>line\<in>set (split_on 10 text). \<not> has_signed_number line) \<longrightarrow>
      parseFinancialEntries d text = Inr [])
 \<and> (\<forall>r. parseMessage t = Inr (Some r) \<longrightarrow> amount r \<noteq> NaN)
 \<and> (\<forall>es. parseFinancialEntries d text = Inr es \<longrightarrow> list_all (\<lambda>e. entry_amount e \<noteq> NaN) es)"
proof (intro conjI impI allI)
  show "\<exists>r. parseMessage t = Inr r"
    using parseMessage_cases[of t] by blast
  show "parseMessage t = Inr None \<longleftrightarrow>
      \<not> amount_first_form (trim t) \<and> \<not> label_first_form (trim t)"
  proof
    assume n: "parseMessage t = Inr None"
    with parseMessage_cases[of t] show "\<not> amount_first_form (trim t) \<and> \<not> label_first_form (trim t)"
      by auto
  next
    assume n: "\<not> amount_first_form (trim t) \<and> \<not> label_first_form (trim t)"
    have "parseMessage t = Inr None"
    proof (rule ccontr)
      assume "parseMessage t \<noteq> Inr None"
      with parseMessage_cases[of t] n show False
        unfolding amount_first_form_def label_first_form_def by blast
    qed
    then show "parseMessage t = Inr None" .
  qed
  show "\<exists>es. parseFinancialEntries d text = Inr es"
    by (simp add: parseFinancialEntries_lines)
next
  assume "\<forall>line\<in>set (split_on 10 text). \<not> has_signed_number line"
  then have "\<forall>line\<in>set (split_on 10 text). line_entries d line = []"
    by (simp add: line_entries_def no_match_without_signed_number)
  then show "parseFinancialEntries d text = Inr []"
    by (simp add: parseFinancialEntries_lines)
next
  fix r
  assume "parseMessage t = Inr (Some r)"
  with parseMessage_cases[of t] obtain ds where "amount r = round_double (of_int (decimal ds))"
    by auto
  then show "amount r \<noteq> NaN" by (simp add: round_double_not_NaN)
next
  fix es
  assume "parseFinancialEntries d text = Inr es"
  then have "es = concat (map (line_entries d) (split_on 10 text))"
    by (simp add: parseFinancialEntries_lines)
  then show "list_all (\<lambda>e. entry_amount e \<noteq> NaN) es"
    by (auto simp: list_all_iff line_entries_not_NaN)
qed

text \<open>
  Witness for C3: \<open>not a transaction\<close> has neither form and \<open>parseMessage\<close> returns
  null for it; the two lines \<open>hello\<close> and \<open>bye\<close> have no signed number and give no
  entry; \<open>5 x\<close> and \<open>x -1\<close> are read with the amounts 5 and -1, which are not NaN.
\<close>

theorem parsing_is_total_witness:
  "parseMessage (str ''not a transaction'') = Inr None
 \<and> \<not> amount_first_form (trim (str ''not a transaction''))
 \<and> \<not> label_first_form (trim (str ''not a transaction''))
 \<and> split_on 10 (str ''hello'' @ [10] @ str ''bye'') = [str ''hello'', str ''bye'']
 \<and> \<not> has_signed_number (str ''hello'') \<and> \<not> has_signed_number (str ''bye'')
 \<and> parseFinancialEntries (str ''2024-01-01'') (str ''hello'' @ [10] @ str ''bye'') = Inr []
 \<and> parseMessage (str ''5 x'') = Inr (Some \<lparr>label = str ''x'', sign = Positive, amount = Fin 5\<rparr>)
 \<and> amount \<lparr>label = str ''x'', sign = Positive, amount = Fin 5\<rparr> \<noteq> NaN
 \<and> parseFinancialEntries (str ''2024-01-01'') (str ''x -1'')
     = Inr [\<lparr>description = str ''x'', entry_amount = Fin (- 1), date = str ''2024-01-01''\<rparr>]
 \<and> list_all (\<lambda>e. entry_amount e \<noteq> NaN)
      [\<lparr>description = str ''x'', entry_amount = Fin (- 1), date = str ''2024-01-01''\<rparr>]"
proof -
  have p: "parseMessage (str ''not a transaction'') = Inr None"
    by (simp add: parser_eval)
  have s: "split_on 10 (str ''hello'' @ [10] @ str ''bye'') = [str ''hello'', str ''bye'']"
    by (simp add: str_def)
  have h: "\<not> has_signed_number (str ''hello'')" "\<not> has_signed_number (str ''bye'')"
    by (simp_all add: string_eval)
  have q: "parseMessage (str ''5 x'') = Inr (Some \<lparr>label = str ''x'', sign = Positive, amount = Fin 5\<rparr>)"
    by (simp add: parser_eval)
  have e: "parseFinancialEntries (str ''2024-01-01'') (str ''x -1'')
     = Inr [\<lparr>description = str ''x'', entry_amount = Fin (- 1), date = str ''2024-01-01''\<rparr>]"
    by (simp add: entry_eval)
  note T = parsing_is_total[of "str ''not a transaction''" "str ''2024-01-01''"
      "str ''hello'' @ [10] @ str ''bye''"]
  note U = parsing_is_total[of "str ''5 x''" "str ''2024-01-01''" "str ''x -1''"]
  from T p have 1: "\<not> amount_first_form (trim (str ''not a transaction''))"
    "\<not> label_first_form (trim (str ''not a transaction''))" by blast+
  from T s h have 2: "parseFinancialEntries (str ''2024-01-01'') (str ''hello'' @ [10] @ str ''bye'') = Inr []"
    by simp
  from U q have 3: "amount \<lparr>label = str ''x'', sign = Positive, amount = Fin 5\<rparr> \<noteq> NaN" by blast
  from U e have 4: "list_all (\<lambda>e. entry_amount e \<noteq> NaN)
      [\<lparr>description = str ''x'', entry_amount = Fin (- 1), date = str ''2024-01-01''\<rparr>]" by blast
  from p 1 s h 2 q 3 e 4 show ?thesis by blast
qed

text \<open>
  Counterexample to C3 as stated: \<open>x-1y\<close> has neither form, and
  \<open>parseFinancialEntries\<close> returns an entry for it.
\<close>

theorem unanchored_match_counterexample:
  "\<not> amount_first_form (trim (str ''x-1y''))
 \<and> \<not> label_first_form (trim (str ''x-1y''))
 \<and> parseFinancialEntries (str ''2024-01-01'') (str ''x-1y'')
     = Inr [\<lparr>description = str ''x'', entry_amount = Fin (- 1), date = str ''2024-01-01''\<rparr>]"
proof -
  have "parseMessage (str ''x-1y'') = Inr None"
    by (simp add: parser_eval)
  with parseMessage_cases[of "str ''x-1y''"]
  have "\<not> amount_first_form (trim (str ''x-1y'')) \<and> \<not> label_first_form (trim (str ''x-1y''))"
    by auto
  moreover have "parseFinancialEntries (str ''2024-01-01'') (str ''x-1y'')
     = Inr [\<lparr>description = str ''x'', entry_amount = Fin (- 1), date = str ''2024-01-01''\<rparr>]"
    by (simp add: entry_eval)
  ultimately show ?thesis by simp
qed

text \<open>
  Claim C4, amended. \<open>parseMessage\<close> never parses a part of a line: it returns null,
  or the whole trimmed line is an optional sign, digits, white space and the label it
  returns, or the whole trimmed line is the label it returns, white space, a sign and
  digits; the amount is the number that all the digits denote (the double nearest to
  their value). \<open>parseFinancialEntries\<close>, whose pattern has no anchors, reads a line
  up to the end of its first signed number and ignores the text after it: a label in
  which no sign is directly followed by a digit after the first character, white
  space, a sign and digits give the same entry whatever follows the digits (other
  than a further digit). A line that does not match gives no entry at all, so no
  amount of zero stands in for it.
\<close>

theorem no_partial_parse:
  "(parseMessage t = Inr None
    \<or> (\<exists>sg ds ws lbl. trim t = sg @ ds @ ws @ lbl \<and>
          (sg = [] \<or> sg = str ''+'' \<or> sg = str ''-'') \<and>
          ds \<noteq> [] \<and> list_all is_digit ds \<and> ws \<noteq> [] \<and> list_all is_ws ws \<and>
          lbl \<noteq> [] \<and> list_all is_dot lbl \<and>
          parseMessage t = Inr (Some \<lparr>label = trim lbl,
                      sign = (if sg = str ''-'' then Negative else Positive),
                      amount = round_double (of_int (decimal ds))\<rparr>))
    \<or> (\<exists>lbl ws sg ds. trim t = lbl @ ws @ sg @ ds \<and>
          lbl \<noteq> [] \<and> list_all is_dot lbl \<and> ws \<noteq> [] \<and> list_all is_ws ws \<and>
          (sg = str ''+'' \<or> sg = str ''-'') \<and> ds \<noteq> [] \<and> list_all is_digit ds \<and>
          parseMessage t = Inr (Some \<lparr>label = trim lbl,
                      sign = (if sg = str ''+'' then Positive else Negative),
                      amount = round_double (of_int (decimal ds))\<rparr>)))
 \<and> ((\<forall>c\<in>set lbl'. is_dot c) \<and> \<not> has_signed_number lbl' \<and> (\<exists>c\<in>set lbl'. \<not> is_ws c) \<and>
      (\<forall>c\<in>set ws'. is_ws c) \<and> is_sign sg' \<and> ds' \<noteq> [] \<and> (\<forall>c\<in>set ds'. is_digit c) \<and>
      (rest = [] \<or> \<not> is_digit (hd rest)) \<and> 10 \<notin> set (ws' @ rest) \<longrightarrow>
      parseFinancialEntries d (lbl' @ ws' @ sg' # ds' @ rest) =
        Inr [\<lparr>description = trim lbl',
              entry_amount = round_double (of_int (if sg' = 45 then - decimal ds' else decimal ds')),
              date = d\<rparr>])
 \<and> (10 \<notin> set line \<and> entry_pattern line = None \<longrightarrow> parseFinancialEntries d line = Inr [])"
proof (intro conjI impI)
  from parseMessage_cases[of t]
  show "parseMessage t = Inr None
    \<or> (\<exists>sg ds ws lbl. trim t = sg @ ds @ ws @ lbl \<and>
          (sg = [] \<or> sg = str ''+'' \<or> sg = str ''-'') \<and>
          ds \<noteq> [] \<and> list_all is_digit ds \<and> ws \<noteq> [] \<and> list_all is_ws ws \<and>
          lbl \<noteq> [] \<and> list_all is_dot lbl \<and>
          parseMessage t = Inr (Some \<lparr>label = trim lbl,
                      sign = (if sg = str ''-'' then Negative else Positive),
                      amount = round_double (of_int (decimal ds))\<rparr>))
    \<or> (\<exists>lbl ws sg ds. trim t = lbl @ ws @ sg @ ds \<and>
          lbl \<noteq> [] \<and> list_all is_dot lbl \<and> ws \<noteq> [] \<and> list_all is_ws ws \<and>
          (sg = str ''+'' \<or> sg = str ''-'') \<and> ds \<noteq> [] \<and> list_all is_digit ds \<and>
          parseMessage t = Inr (Some \<lparr>label = trim lbl,
                      sign = (if sg = str ''+'' then Positive else Negative),
                      amount = round_double (of_int (decimal ds))\<rparr>))"
    unfolding list_all_iff by blast
next
  assume a: "(\<forall>c\<in>set lbl'. is_dot c) \<and> \<not> has_signed_number lbl' \<and> (\<exists>c\<in>set lbl'. \<not> is_ws c) \<and>
      (\<forall>c\<in>set ws'. is_ws c) \<and> is_sign sg' \<and> ds' \<noteq> [] \<and> (\<forall>c\<in>set ds'. is_digit c) \<and>
      (rest = [] \<or> \<not> is_digit (hd rest)) \<and> 10 \<notin> set (ws' @ rest)"
  then have h: "\<forall>c\<in>set lbl'. is_dot c" "\<not> has_signed_number lbl'" "\<exists>c\<in>set lbl'. \<not> is_ws c"
    "\<forall>c\<in>set ws'. is_ws c" "is_sign sg'" "ds' \<noteq> []" "\<forall>c\<in>set ds'. is_digit c"
    "rest = [] \<or> \<not> is_digit (hd rest)"
    and n: "10 \<notin> set ws'" "10 \<notin> set rest"
    by auto
  have "10 \<notin> set lbl'" using h(1) by (auto simp: is_dot_def is_line_terminator_def)
  moreover have "10 \<notin> set ds'" using h(7) by (auto simp: is_digit_def)
  moreover have "sg' \<noteq> 10" using h(5) by (auto simp: is_sign_def)
  ultimately have "10 \<notin> set (lbl' @ ws' @ sg' # ds' @ rest)" using n by simp
  from single_line[OF this, of d] line_entries_label_first[OF h, of d]
  show "parseFinancialEntries d (lbl' @ ws' @ sg' # ds' @ rest) =
        Inr [\<lparr>description = trim lbl',
              entry_amount = round_double (of_int (if sg' = 45 then - decimal ds' else decimal ds')),
              date = d\<rparr>]"
    by simp
next
  assume "10 \<notin> set line \<and> entry_pattern line = None"
  then show "parseFinancialEntries d line = Inr []"
    by (simp add: single_line line_entries_def)
qed

text \<open>
  Witness for C4: \<open>pay bills -3000\<close> is consumed whole by \<open>parseMessage\<close>, and with a
  word after the digits the line is rejected; \<open>parseFinancialEntries\<close> reads
  \<open>milk -25 each\<close> as the entry \<open>milk\<close> of -25, and gives no entry for a line
  without a signed number.
\<close>

theorem no_partial_parse_witness:
  "trim (str ''pay bills -3000'') = str ''pay bills'' @ str '' '' @ str ''-'' @ str ''3000''
 \<and> parseMessage (str ''pay bills -3000'')
     = Inr (Some \<lparr>label = str ''pay bills'', sign = Negative, amount = Fin 3000\<rparr>)
 \<and> parseMessage (str ''pay bills -3000 now'') = Inr None
 \<and> parseFinancialEntries (str ''2024-01-01'') (str ''milk'' @ str '' '' @ 45 # str ''25'' @ str '' each'')
     = Inr [milk]
 \<and> entry_pattern (str ''no amount here'') = None
 \<and> parseFinancialEntries (str ''2024-01-01'') (str ''no amount here'') = Inr []"
proof -
  have p: "trim (str ''pay bills -3000'') = str ''pay bills'' @ str '' '' @ str ''-'' @ str ''3000''"
    "parseMessage (str ''pay bills -3000'')
     = Inr (Some \<lparr>label = str ''pay bills'', sign = Negative, amount = Fin 3000\<rparr>)"
    "parseMessage (str ''pay bills -3000 now'') = Inr None"
    by (simp_all add: parser_eval)
  have e: "entry_pattern (str ''no amount here'') = None" "10 \<notin> set (str ''no amount here'')"
    by (simp_all add: entry_eval)
  have h: "\<forall>c\<in>set (str ''milk''). is_dot c" "\<not> has_signed_number (str ''milk'')"
    "\<exists>c\<in>set (str ''milk''). \<not> is_ws c"
    "\<forall>c\<in>set (str '' ''). is_ws c" "is_sign 45" "str ''25'' \<noteq> []"
    "\<forall>c\<in>set (str ''25''). is_digit c"
    "str '' each'' = [] \<or> \<not> is_digit (hd (str '' each''))" "10 \<notin> set (str '' '' @ str '' each'')"
    by (simp_all add: string_eval)
  have v: "trim (str ''milk'') = str ''milk''" "decimal (str ''25'') = 25"
    by (simp_all add: decimal_def digit_val_def string_eval)
  note T = no_partial_parse[of "str ''pay bills -3000''" "str ''milk''" "str '' ''" 45 "str ''25''"
      "str '' each''" "str ''2024-01-01''" "str ''no amount here''"]
  from T h have "parseFinancialEntries (str ''2024-01-01'')
        (str ''milk'' @ str '' '' @ 45 # str ''25'' @ str '' each'')
     = Inr [\<lparr>description = trim (str ''milk''),
              entry_amount = round_double (of_int (if (45::nat) = 45 then - decimal (str ''25'')
                else decimal (str ''25''))),
              date = str ''2024-01-01''\<rparr>]"
    by blast
  then have m: "parseFinancialEntries (str ''2024-01-01'')
        (str ''milk'' @ str '' '' @ 45 # str ''25'' @ str '' each'') = Inr [milk]"
    unfolding v milk_def by (simp add: round_double_numeral)
  from T e have n: "parseFinancialEntries (str ''2024-01-01'') (str ''no amount here'') = Inr []"
    by blast
  from m n have "parseFinancialEntries (str ''2024-01-01'')
        (str ''milk'' @ str '' '' @ 45 # str ''25'' @ str '' each'') = Inr [milk]"
    "parseFinancialEntries (str ''2024-01-01'') (str ''no amount here'') = Inr []"
    by blast+
  with p e show ?thesis by blast
qed

text \<open>
  Counterexample to C4 as stated: \<open>parseFinancialEntries\<close> returns the same entry for
  \<open>rent -3000 paid\<close> as for \<open>rent -3000\<close>; the word after the amount is dropped
  without a rejection.
\<close>

theorem trailing_text_discarded_counterexample:
  "parseFinancialEntries (str ''2024-01-01'') (str ''rent -3000 paid'') = Inr [rent]
 \<and> parseFinancialEntries (str ''2024-01-01'') (str ''rent -3000'') = Inr [rent]
 \<and> str ''rent -3000 paid'' \<noteq> str ''rent -3000''"
proof (intro conjI)
  show "parseFinancialEntries (str ''2024-01-01'') (str ''rent -3000 paid'') = Inr [rent]"
    by (simp add: entry_eval rent_def)
  show "parseFinancialEntries (str ''2024-01-01'') (str ''rent -3000'') = Inr [rent]"
    by (simp add: entry_eval rent_def)
  show "str ''rent -3000 paid'' \<noteq> str ''rent -3000''"
    by (simp add: str_def)
qed

text \<open>
  Claim C10. \<open>parseFinancialEntries\<close> never fails, and its result is the
  concatenation, in the order of the lines of the text, of what each line gives by
  itself: one entry (that of the first match) for a line the pattern matches, nothing
  for a line it does not match. So the lines of a text joined by newlines are parsed
  independently of each other. The text handler, for a user with an active receipt,
  appends exactly these entries, in that order, after the entries the receipt already
  has, and changes no other receipt.
\<close>

theorem multi_line_entries:
  "parseFinancialEntries d text = Inr (concat (map (line_entries d) (split_on 10 text)))
 \<and> length (line_entries d line) \<le> 1
 \<and> (line_entries d line = [] \<longleftrightarrow> entry_pattern line = None)
 \<and> ((\<forall>l\<in>set ls. 10 \<notin> set l) \<and> ls \<noteq> [] \<longrightarrow>
      parseFinancialEntries d (join [10] ls) = Inr (concat (map (line_entries d) ls)))
 \<and> (from_id c = Some u \<and> u \<noteq> 0 \<and> message_text c = Some text \<and> take 1 text \<noteq> str ''/'' \<and>
      userSessions st u = Some s \<and> selected s = Some cur \<longrightarrow>
      entries_of (snd (text_handler d c st)) cur
        = entries_of st cur @ concat (map (line_entries d) (split_on 10 text))
      \<and> (\<forall>m. m \<noteq> cur \<longrightarrow> receipts (snd (text_handler d c st)) m = receipts st m))"
proof (intro conjI impI)
  show "parseFinancialEntries d text = Inr (concat (map (line_entries d) (split_on 10 text)))"
    by (rule parseFinancialEntries_lines)
  show "length (line_entries d line) \<le> 1"
    by (simp add: line_entries_def split: option.splits)
  show "line_entries d line = [] \<longleftrightarrow> entry_pattern line = None"
  proof (cases "entry_pattern line")
    case None
    then show ?thesis by (simp add: line_entries_def)
  next
    case (Some m)
    from entry_pattern_ok[OF Some] obtain l where "m1 m = Some l" by blast
    with Some show ?thesis by (simp add: line_entries_def)
  qed
next
  assume "(\<forall>l\<in>set ls. 10 \<notin> set l) \<and> ls \<noteq> []"
  then have "split_on 10 (join [10] ls) = ls" by (simp add: split_on_join)
  then show "parseFinancialEntries d (join [10] ls) = Inr (concat (map (line_entries d) ls))"
    by (simp add: parseFinancialEntries_lines)
next
  assume a: "from_id c = Some u \<and> u \<noteq> 0 \<and> message_text c = Some text \<and> take 1 text \<noteq> str ''/'' \<and>
      userSessions st u = Some s \<and> selected s = Some cur"
  then have h: "from_id c = Some u" "u \<noteq> 0" "message_text c = Some text" "take 1 text \<noteq> str ''/''"
    "userSessions st u = Some s" "selected s = Some cur"
    by blast+
  show "entries_of (snd (text_handler d c st)) cur
        = entries_of st cur @ concat (map (line_entries d) (split_on 10 text))"
    by (rule text_handler_appends(1)[OF h])
  show "\<forall>m. m \<noteq> cur \<longrightarrow> receipts (snd (text_handler d c st)) m = receipts st m"
    using text_handler_appends(2)[OF h] by blast
qed

text \<open>
  Witness for C10: of the four lines \<open>milk -25\<close>, \<open>junk\<close>, an empty line and
  \<open>bread -15\<close>, the first and the last give an entry each, in that order; and when
  user 7, whose active receipt \<open>food\<close> holds milk and bread, sends \<open>rent -3000\<close>, the
  receipt holds milk, bread and rent.
\<close>

theorem multi_line_entries_witness:
  "line_entries (str ''2024-01-01'') (str ''milk -25'') = [milk]
 \<and> line_entries (str ''2024-01-01'') (str ''junk'') = []
 \<and> line_entries (str ''2024-01-01'') [] = []
 \<and> line_entries (str ''2024-01-01'') (str ''bread -15'') = [bread]
 \<and> parseFinancialEntries (str ''2024-01-01'')
      (join [10] [str ''milk -25'', str ''junk'', [], str ''bread -15'']) = Inr [milk, bread]
 \<and> userSessions example_bot 7 = Some \<lparr>currentReceipt = Some (str ''food'')\<rparr>
 \<and> selected \<lparr>currentReceipt = Some (str ''food'')\<rparr> = Some (str ''food'')
 \<and> take 1 (str ''rent -3000'') \<noteq> str ''/''
 \<and> entries_of example_bot (str ''food'') = [milk, bread]
 \<and> entries_of (snd (text_handler (str ''2024-01-01'')
        \<lparr>from_id = Some 7, message_text = Some (str ''rent -3000'')\<rparr> example_bot)) (str ''food'')
     = [milk, bread, rent]"
proof -
  have l: "line_entries (str ''2024-01-01'') (str ''milk -25'') = [milk]"
    "line_entries (str ''2024-01-01'') (str ''junk'') = []"
    "line_entries (str ''2024-01-01'') [] = []"
    "line_entries (str ''2024-01-01'') (str ''bread -15'') = [bread]"
    "line_entries (str ''2024-01-01'') (str ''rent -3000'') = [rent]"
    by (simp_all add: line_entries_def entry_eval milk_def bread_def rent_def)
  have n: "(\<forall>l\<in>set [str ''milk -25'', str ''junk'', [], str ''bread -15'']. 10 \<notin> set l)
      \<and> [str ''milk -25'', str ''junk'', [], str ''bread -15''] \<noteq> []"
    by (simp add: str_def)
  have s: "userSessions example_bot 7 = Some \<lparr>currentReceipt = Some (str ''food'')\<rparr>"
    "selected \<lparr>currentReceipt = Some (str ''food'')\<rparr> = Some (str ''food'')"
    "take 1 (str ''rent -3000'') \<noteq> str ''/''"
    "entries_of example_bot (str ''food'') = [milk, bread]"
    "split_on 10 (str ''rent -3000'') = [str ''rent -3000'']"
    by (simp_all add: example_bot_def selected_def entries_of_def str_def)
  note T = multi_line_entries[of "str ''2024-01-01''" "str ''rent -3000''" "str ''junk''"
      "[str ''milk -25'', str ''junk'', [], str ''bread -15'']"
      "\<lparr>from_id = Some 7, message_text = Some (str ''rent -3000'')\<rparr>" 7 example_bot
      "\<lparr>currentReceipt = Some (str ''food'')\<rparr>" "str ''food''"]
  from T n have "parseFinancialEntries (str ''2024-01-01'')
      (join [10] [str ''milk -25'', str ''junk'', [], str ''bread -15''])
     = Inr (concat (map (line_entries (str ''2024-01-01''))
          [str ''milk -25'', str ''junk'', [], str ''bread -15'']))"
    by blast
  then have p: "parseFinancialEntries (str ''2024-01-01'')
      (join [10] [str ''milk -25'', str ''junk'', [], str ''bread -15'']) = Inr [milk, bread]"
    by (simp add: l)
  have "from_id \<lparr>from_id = Some 7, message_text = Some (str ''rent -3000'')\<rparr> = Some 7 \<and> (7::int) \<noteq> 0 \<and>
      message_text \<lparr>from_id = Some 7, message_text = Some (str ''rent -3000'')\<rparr> = Some (str ''rent -3000'') \<and>
      take 1 (str ''rent -3000'') \<noteq> str ''/'' \<and>
      userSessions example_bot 7 = Some \<lparr>currentReceipt = Some (str ''food'')\<rparr> \<and>
      selected \<lparr>currentReceipt = Some (str ''food'')\<rparr> = Some (str ''food'')"
    using s by simp
  with T have "entries_of (snd (text_handler (str ''2024-01-01'')
        \<lparr>from_id = Some 7, message_text = Some (str ''rent -3000'')\<rparr> example_bot)) (str ''food'')
     = entries_of example_bot (str ''food'') @
        concat (map (line_entries (str ''2024-01-01'')) (split_on 10 (str ''rent -3000'')))"
    by blast
  then have h: "entries_of (snd (text_handler (str ''2024-01-01'')
        \<lparr>from_id = Some 7, message_text = Some (str ''rent -3000'')\<rparr> example_bot)) (str ''food'')
     = [milk, bread, rent]"
    by (simp add: s l)
  from l p s h show ?thesis by blast
qed

end
